theory Spec2Isabelle
  imports Complex_Main "HOL-Library.AList"
begin

section \<open>The z-score route: \<open>POST /api/network-data\<close>\<close>

subsection \<open>JavaScript numbers\<close>

text \<open>
  A JavaScript Number is an IEEE 754 double: a finite value, an infinity or NaN.  The two
  zeros are one value here, \<open>Fin 0\<close>: they compare equal, and the one operation that tells
  them apart, a division by zero, gives an infinity whose sign the detector drops with
  \<open>Math.abs\<close>.
\<close>

datatype number = Fin real | PosInfinity | NegInfinity | NaN

text \<open>
  The result of \<open>+\<close>, \<open>-\<close>, \<open>*\<close> or \<open>/\<close> on finite operands is the exact result,
  rounded to a double (or to an infinity on overflow); a decimal literal and the length of
  an array are rounded in the same way.  \<open>Math.sqrt\<close> and \<open>Math.pow\<close> return an
  approximation that the language leaves to the implementation.  The rounding and the two
  approximations are parameters of the model: a runtime.  Nothing is assumed of them,
  except where a theorem says so.  What the operations do with the values that are not
  finite is fixed by the language and written out.
\<close>

record runtime =
  rnd :: "real \<Rightarrow> number"
  sqrt_approx :: "real \<Rightarrow> number"
  square_approx :: "real \<Rightarrow> number"

text \<open>The runtime that computes exactly.\<close>

definition exact_runtime :: runtime where
  "exact_runtime =
     \<lparr>rnd = Fin, sqrt_approx = (\<lambda>x. Fin (sqrt x)), square_approx = (\<lambda>x. Fin (x\<^sup>2))\<rparr>"

fun js_neg :: "number \<Rightarrow> number" where
  "js_neg (Fin x) = Fin (- x)"
| "js_neg PosInfinity = NegInfinity"
| "js_neg NegInfinity = PosInfinity"
| "js_neg NaN = NaN"

text \<open>\<open>a + b\<close>\<close>

fun js_add :: "runtime \<Rightarrow> number \<Rightarrow> number \<Rightarrow> number" where
  "js_add rt (Fin x) (Fin y) = rnd rt (x + y)"
| "js_add rt (Fin x) PosInfinity = PosInfinity"
| "js_add rt (Fin x) NegInfinity = NegInfinity"
| "js_add rt PosInfinity (Fin y) = PosInfinity"
| "js_add rt PosInfinity PosInfinity = PosInfinity"
| "js_add rt PosInfinity NegInfinity = NaN"
| "js_add rt NegInfinity (Fin y) = NegInfinity"
| "js_add rt NegInfinity NegInfinity = NegInfinity"
| "js_add rt NegInfinity PosInfinity = NaN"
| "js_add rt NaN b = NaN"
| "js_add rt a NaN = NaN"

text \<open>\<open>a - b\<close>\<close>

definition js_sub :: "runtime \<Rightarrow> number \<Rightarrow> number \<Rightarrow> number" where
  "js_sub rt a b = js_add rt a (js_neg b)"

text \<open>\<open>a * b\<close>\<close>

fun js_mul :: "runtime \<Rightarrow> number \<Rightarrow> number \<Rightarrow> number" where
  "js_mul rt (Fin x) (Fin y) = rnd rt (x * y)"
| "js_mul rt (Fin x) PosInfinity =
     (if x = 0 then NaN else if x > 0 then PosInfinity else NegInfinity)"
| "js_mul rt (Fin x) NegInfinity =
     (if x = 0 then NaN else if x > 0 then NegInfinity else PosInfinity)"
| "js_mul rt PosInfinity (Fin y) =
     (if y = 0 then NaN else if y > 0 then PosInfinity else NegInfinity)"
| "js_mul rt NegInfinity (Fin y) =
     (if y = 0 then NaN else if y > 0 then NegInfinity else PosInfinity)"
| "js_mul rt PosInfinity PosInfinity = PosInfinity"
| "js_mul rt PosInfinity NegInfinity = NegInfinity"
| "js_mul rt NegInfinity PosInfinity = NegInfinity"
| "js_mul rt NegInfinity NegInfinity = PosInfinity"
| "js_mul rt NaN b = NaN"
| "js_mul rt a NaN = NaN"

text \<open>\<open>a / b\<close>; a zero divisor counts as \<open>+0\<close>.\<close>

fun js_div :: "runtime \<Rightarrow> number \<Rightarrow> number \<Rightarrow> number" where
  "js_div rt (Fin x) (Fin y) =
     (if y \<noteq> 0 then rnd rt (x / y)
      else if x = 0 then NaN else if x > 0 then PosInfinity else NegInfinity)"
| "js_div rt (Fin x) PosInfinity = Fin 0"
| "js_div rt (Fin x) NegInfinity = Fin 0"
| "js_div rt PosInfinity (Fin y) = (if y \<ge> 0 then PosInfinity else NegInfinity)"
| "js_div rt NegInfinity (Fin y) = (if y \<ge> 0 then NegInfinity else PosInfinity)"
| "js_div rt PosInfinity PosInfinity = NaN"
| "js_div rt PosInfinity NegInfinity = NaN"
| "js_div rt NegInfinity PosInfinity = NaN"
| "js_div rt NegInfinity NegInfinity = NaN"
| "js_div rt NaN b = NaN"
| "js_div rt a NaN = NaN"

text \<open>\<open>Math.sqrt(a)\<close>\<close>

fun Math_sqrt :: "runtime \<Rightarrow> number \<Rightarrow> number" where
  "Math_sqrt rt (Fin x) = (if x < 0 then NaN else if x = 0 then Fin 0 else sqrt_approx rt x)"
| "Math_sqrt rt PosInfinity = PosInfinity"
| "Math_sqrt rt NegInfinity = NaN"
| "Math_sqrt rt NaN = NaN"

text \<open>\<open>Math.pow(a, 2)\<close>\<close>

fun Math_pow_2 :: "runtime \<Rightarrow> number \<Rightarrow> number" where
  "Math_pow_2 rt (Fin x) = (if x = 0 then Fin 0 else square_approx rt x)"
| "Math_pow_2 rt PosInfinity = PosInfinity"
| "Math_pow_2 rt NegInfinity = PosInfinity"
| "Math_pow_2 rt NaN = NaN"

text \<open>
  \<open>Math.round\<close> gives the nearest integer, the upper one of two: it is \<open>\<lfloor>x + 1/2\<rfloor>\<close>, which
  is HOL's \<open>round\<close>.  The nearest integer of a double is a double.
\<close>

fun Math_round :: "number \<Rightarrow> number" where
  "Math_round (Fin x) = Fin (of_int (round x))"
| "Math_round y = y"

fun Math_abs :: "number \<Rightarrow> number" where
  "Math_abs (Fin x) = Fin \<bar>x\<bar>"
| "Math_abs PosInfinity = PosInfinity"
| "Math_abs NegInfinity = PosInfinity"
| "Math_abs NaN = NaN"

text \<open>\<open>a < b\<close>, \<open>a > b\<close> and \<open>a <= b\<close>: false when an operand is NaN.\<close>

fun js_lt :: "number \<Rightarrow> number \<Rightarrow> bool" where
  "js_lt (Fin x) (Fin y) = (x < y)"
| "js_lt (Fin x) PosInfinity = True"
| "js_lt NegInfinity (Fin y) = True"
| "js_lt NegInfinity PosInfinity = True"
| "js_lt a b = False"

definition js_gt :: "number \<Rightarrow> number \<Rightarrow> bool" where
  "js_gt a b = js_lt b a"

definition js_le :: "number \<Rightarrow> number \<Rightarrow> bool" where
  "js_le a b = (js_lt a b \<or> (a = b \<and> a \<noteq> NaN))"

subsection \<open>Double precision\<close>

text \<open>
  What some theorems below ask of a runtime.  The arithmetic of a JavaScript engine, IEEE
  754 double precision with rounding to nearest, has these properties.

  A runtime is accurate when: a real \<open>k / 2\<close> with \<open>\<bar>k\<bar> \<le> 2\<^sup>5\<^sup>3\<close>, which is a double, is
  not changed by rounding; rounding a real of the normal range gives a finite value within
  the relative error \<open>2\<^sup>-\<^sup>5\<^sup>3\<close>; \<open>Math.sqrt\<close> is within the same error, being correctly
  rounded; and \<open>Math.pow\<close>, whose accuracy the language leaves to the engine, gives the
  exact square of an integer when that square is at most \<open>2\<^sup>5\<^sup>3\<close>.

  Its rounding is monotone when it keeps the order of the reals and commutes with the
  change of sign.
\<close>

definition unit_roundoff :: real where
  "unit_roundoff = 1 / 2 ^ 53"

definition normal_range :: "real \<Rightarrow> bool" where
  "normal_range x \<longleftrightarrow> 1 / 2 ^ 1022 \<le> \<bar>x\<bar> \<and> \<bar>x\<bar> \<le> 2 ^ 1023"

definition accurate :: "runtime \<Rightarrow> bool" where
  "accurate rt \<longleftrightarrow>
     (\<forall>k::int. \<bar>k\<bar> \<le> 2 ^ 53 \<longrightarrow> rnd rt (of_int k / 2) = Fin (of_int k / 2)) \<and>
     (\<forall>x. normal_range x \<longrightarrow> (\<exists>y. rnd rt x = Fin y \<and> \<bar>y - x\<bar> \<le> \<bar>x\<bar> * unit_roundoff)) \<and>
     (\<forall>x. 0 < x \<and> normal_range x \<longrightarrow>
        (\<exists>y. sqrt_approx rt x = Fin y \<and> \<bar>y - sqrt x\<bar> \<le> sqrt x * unit_roundoff)) \<and>
     (\<forall>k::int. k\<^sup>2 \<le> 2 ^ 53 \<longrightarrow> square_approx rt (of_int k) = Fin (of_int (k\<^sup>2)))"

definition monotone_rounding :: "runtime \<Rightarrow> bool" where
  "monotone_rounding rt \<longleftrightarrow>
     (\<forall>x y. x \<le> y \<longrightarrow> js_le (rnd rt x) (rnd rt y)) \<and>
     (\<forall>x. rnd rt (- x) = js_neg (rnd rt x))"

subsection \<open>Request bodies and the schema\<close>

text \<open>
  A request body is the value \<open>request.json()\<close> returns; an object lists each of its
  keys once.
\<close>

datatype json =
    JNull
  | JBool bool
  | JNumber number
  | JString string
  | JArray "json list"
  | JObject "(string \<times> json) list"

record NetworkData =
  timestamp :: number
  packetsPerSecond :: number
  bandwidth :: number
  activeConnections :: number
  errorRate :: number

text \<open>
  A field of the schema: \<open>z.number()\<close> accepts a value of type number that is not NaN,
  and nothing else.
\<close>

definition number_field :: "(string \<times> json) list \<Rightarrow> string \<Rightarrow> number option" where
  "number_field kvs k =
     (case map_of kvs k of
        Some (JNumber x) \<Rightarrow> (if x = NaN then None else Some x)
      | _ \<Rightarrow> None)"

text \<open>
  \<open>NetworkDataSchema.parse\<close>: an object with the five numeric fields; other keys are
  dropped.  \<open>None\<close> is the thrown validation error.
\<close>

definition NetworkDataSchema_parse :: "json \<Rightarrow> NetworkData option" where
  "NetworkDataSchema_parse body =
     (case body of
        JObject kvs \<Rightarrow>
          (case (number_field kvs ''timestamp'', number_field kvs ''packetsPerSecond'',
                 number_field kvs ''bandwidth'', number_field kvs ''activeConnections'',
                 number_field kvs ''errorRate'') of
             (Some t, Some p, Some b, Some c, Some e) \<Rightarrow>
               Some \<lparr>timestamp = t, packetsPerSecond = p, bandwidth = b,
                     activeConnections = c, errorRate = e\<rparr>
           | _ \<Rightarrow> None)
      | _ \<Rightarrow> None)"

text \<open>The body a client sends for a sample.\<close>

definition to_json :: "NetworkData \<Rightarrow> json" where
  "to_json d = JObject
     [(''timestamp'', JNumber (timestamp d)),
      (''packetsPerSecond'', JNumber (packetsPerSecond d)),
      (''bandwidth'', JNumber (bandwidth d)),
      (''activeConnections'', JNumber (activeConnections d)),
      (''errorRate'', JNumber (errorRate d))]"

subsection \<open>Anomaly events\<close>

datatype severity = Info | Warning | Critical

text \<open>
  The four description templates of the source, with the two numbers each one
  interpolates: the current value, and the rounded mean (the mean itself, printed with
  two decimals, for the error rate).
\<close>

datatype description =
    UnusualPacketRate number number
  | UnusualBandwidth number number
  | UnusualConnections number number
  | UnusualErrorRate number number

record AnomalyMetrics =
  threshold :: number
  actualValue :: number
  deviation :: number

record Anomaly =
  a_timestamp :: number
  a_type :: string
  a_severity :: severity
  a_source :: string
  a_description :: description
  a_metrics :: AnomalyMetrics

subsection \<open>The detector\<close>

datatype metric = PacketsPerSecond | Bandwidth | ActiveConnections | ErrorRate

fun metric_of :: "metric \<Rightarrow> NetworkData \<Rightarrow> number" where
  "metric_of PacketsPerSecond d = packetsPerSecond d"
| "metric_of Bandwidth d = bandwidth d"
| "metric_of ActiveConnections d = activeConnections d"
| "metric_of ErrorRate d = errorRate d"

definition metrics :: "metric list" where
  "metrics = [PacketsPerSecond, Bandwidth, ActiveConnections, ErrorRate]"

definition ZSCORE_THRESHOLD :: "runtime \<Rightarrow> number" where
  "ZSCORE_THRESHOLD rt = rnd rt 3.0"

text \<open>\<open>xs.slice(-n)\<close>: the last \<open>n\<close> elements, all of them when there are fewer.\<close>

definition slice_last :: "nat \<Rightarrow> 'a list \<Rightarrow> 'a list" where
  "slice_last n xs = drop (length xs - n) xs"

text \<open>\<open>networkDataHistory.slice(-30).map((data) => data[metric])\<close>\<close>

definition window_values :: "NetworkData list \<Rightarrow> metric \<Rightarrow> number list" where
  "window_values history m = map (metric_of m) (slice_last 30 history)"

text \<open>\<open>values.reduce((sum, val) => sum + val, 0) / values.length\<close>\<close>

definition mean_of :: "runtime \<Rightarrow> number list \<Rightarrow> number" where
  "mean_of rt vals =
     js_div rt (foldl (\<lambda>sum val. js_add rt sum val) (rnd rt 0) vals)
       (rnd rt (real (length vals)))"

text \<open>\<open>Math.sqrt(values.reduce((sum, val) => sum + Math.pow(val - mean, 2), 0) / values.length)\<close>\<close>

definition stdDev_of :: "runtime \<Rightarrow> number list \<Rightarrow> number" where
  "stdDev_of rt vals =
     Math_sqrt rt
       (js_div rt
          (foldl (\<lambda>sum val. js_add rt sum (Math_pow_2 rt (js_sub rt val (mean_of rt vals))))
             (rnd rt 0) vals)
          (rnd rt (real (length vals))))"

text \<open>\<open>Math.abs((currentData[metric] - mean) / stdDev)\<close>\<close>

definition zScore :: "runtime \<Rightarrow> number \<Rightarrow> number \<Rightarrow> number \<Rightarrow> number" where
  "zScore rt v mean stdDev = Math_abs (js_div rt (js_sub rt v mean) stdDev)"

definition severity_of :: "runtime \<Rightarrow> number \<Rightarrow> severity" where
  "severity_of rt z =
     (if js_gt z (js_mul rt (ZSCORE_THRESHOLD rt) (rnd rt 2)) then Critical
      else if js_gt z (js_mul rt (ZSCORE_THRESHOLD rt) (rnd rt 1.5)) then Warning
      else Info)"

fun type_of :: "metric \<Rightarrow> string" where
  "type_of PacketsPerSecond = ''traffic_spike''"
| "type_of Bandwidth = ''bandwidth_anomaly''"
| "type_of ActiveConnections = ''connection_flood''"
| "type_of ErrorRate = ''packet_drop''"

fun description_of :: "metric \<Rightarrow> number \<Rightarrow> number \<Rightarrow> description" where
  "description_of PacketsPerSecond v mean = UnusualPacketRate v (Math_round mean)"
| "description_of Bandwidth v mean = UnusualBandwidth v (Math_round mean)"
| "description_of ActiveConnections v mean = UnusualConnections v (Math_round mean)"
| "description_of ErrorRate v mean = UnusualErrorRate v mean"

text \<open>One turn of the loop over the metrics: the anomalies it pushes (none or one).\<close>

definition detect_metric ::
  "runtime \<Rightarrow> NetworkData list \<Rightarrow> NetworkData \<Rightarrow> metric \<Rightarrow> Anomaly list" where
  "detect_metric rt history currentData m =
     (let vals = window_values history m;
          mean = mean_of rt vals;
          stdDev = stdDev_of rt vals
      in if js_lt stdDev (rnd rt 0.1) then []
         else if js_gt (zScore rt (metric_of m currentData) mean stdDev) (ZSCORE_THRESHOLD rt) then
           [\<lparr>a_timestamp = timestamp currentData,
             a_type = type_of m,
             a_severity = severity_of rt (zScore rt (metric_of m currentData) mean stdDev),
             a_source = ''Anomaly Detection Engine'',
             a_description = description_of m (metric_of m currentData) mean,
             a_metrics = \<lparr>threshold = Math_round mean,
                          actualValue = metric_of m currentData,
                          deviation = Math_abs (Math_round
                            (js_mul rt (js_div rt (js_sub rt (metric_of m currentData) mean) mean)
                               (rnd rt 100)))\<rparr>\<rparr>]
         else [])"

text \<open>
  \<open>detectAnomalies\<close> reads the module's \<open>networkDataHistory\<close>; it is the second argument
  here.
\<close>

definition detectAnomalies :: "runtime \<Rightarrow> NetworkData list \<Rightarrow> NetworkData \<Rightarrow> Anomaly list" where
  "detectAnomalies rt history currentData =
     (if length history < 10 then []
      else concat (map (detect_metric rt history currentData) metrics))"

subsection \<open>The handler\<close>

record route_state =
  networkDataHistory :: "NetworkData list"
  detectedAnomalies :: "Anomaly list"

definition initial_route_state :: route_state where
  "initial_route_state = \<lparr>networkDataHistory = [], detectedAnomalies = []\<rparr>"

datatype response = Success nat | BadRequest

text \<open>
  The handler pushes the validated sample, trims the history to its last 1000 entries,
  runs the detector on the sample, and appends what it found to the anomaly list, trimmed
  to its last 100 entries.  \<open>Success n\<close> is the body \<open>{success: true, anomaliesDetected: n}\<close>,
  \<open>BadRequest\<close> the status 400 of the \<open>catch\<close> branch.
\<close>

definition POST :: "runtime \<Rightarrow> route_state \<Rightarrow> json \<Rightarrow> route_state \<times> response" where
  "POST rt st body =
     (case NetworkDataSchema_parse body of
        None \<Rightarrow> (st, BadRequest)
      | Some validatedData \<Rightarrow>
          (let pushed = networkDataHistory st @ [validatedData];
               history = (if length pushed > 1000 then slice_last 1000 pushed else pushed);
               anomalies = detectAnomalies rt history validatedData;
               detected =
                 (if length anomalies > 0 then
                    (let appended = detectedAnomalies st @ anomalies
                     in if length appended > 100 then slice_last 100 appended else appended)
                  else detectedAnomalies st)
           in (\<lparr>networkDataHistory = history, detectedAnomalies = detected\<rparr>,
               Success (length anomalies))))"

text \<open>A run of requests: the final state and the responses in order.\<close>

fun feed :: "runtime \<Rightarrow> route_state \<Rightarrow> json list \<Rightarrow> route_state \<times> response list" where
  "feed rt st [] = (st, [])"
| "feed rt st (body # bodies) =
     (let (st1, r) = POST rt st body; (st2, rs) = feed rt st1 bodies in (st2, r # rs))"

section \<open>The data manager: \<open>lib/data-manager.ts\<close>\<close>

text \<open>
  The manager and its producers run on one event loop.  Each public method is modelled as
  one atomic step: what other callers could do while a method is suspended at an
  \<open>await\<close> is outside the model.  Subscribers are opaque callbacks; a callback is a
  number here, and calling it is recorded in the list of calls a step returns.  A
  subscriber is taken to return normally.
\<close>

subsection \<open>Events and producers (\<open>lib/index.ts\<close> and the five sources)\<close>

datatype status_name = Initializing | Running | Stopped | ErrorStatus

text \<open>The status object without its clock and counters (\<open>lastUpdated\<close>, \<open>metrics\<close>).\<close>

record DataSourceStatus =
  status :: status_name
  message :: "string option"

record NetworkDataPoint =
  dp_timestamp :: number
  dp_packetsPerSecond :: number
  dp_bandwidth :: number
  dp_activeConnections :: number
  dp_errorRate :: number
  dp_source :: "string option"
  dp_additionalMetrics :: "(string \<times> (number + string)) list option"

record EventMetrics =
  ev_threshold :: number
  ev_actualValue :: number
  ev_deviation :: number

record AnomalyEvent =
  ev_id :: string
  ev_timestamp :: number
  ev_type :: string
  ev_severity :: severity
  ev_source :: string
  ev_description :: string
  ev_duration :: "string option"
  ev_metrics :: "EventMetrics option"
  ev_recommendedAction :: string

datatype DataSourceType = Pcap | Snmp | Netflow | Syslog | Simulated

text \<open>
  A producer: its class, the \<open>running\<close> flag, its current status and the configuration
  fields it was given (the defaults of each class are left out).
\<close>

record NetworkDataSource =
  kind :: DataSourceType
  running :: bool
  current_status :: DataSourceStatus
  config :: "(string \<times> json) list"

definition new_source :: "DataSourceType \<Rightarrow> NetworkDataSource" where
  "new_source k =
     \<lparr>kind = k, running = False, current_status = \<lparr>status = Stopped, message = None\<rparr>,
      config = []\<rparr>"

text \<open>
  \<open>createDataSource\<close>: the type is a string at run time (the route passes the field of
  the request body on); the \<open>default\<close> branch throws, which is \<open>None\<close>.
\<close>

definition createDataSource :: "string \<Rightarrow> NetworkDataSource option" where
  "createDataSource type =
     (if type = ''pcap'' then Some (new_source Pcap)
      else if type = ''snmp'' then Some (new_source Snmp)
      else if type = ''netflow'' then Some (new_source Netflow)
      else if type = ''syslog'' then Some (new_source Syslog)
      else if type = ''simulated'' then Some (new_source Simulated)
      else None)"

fun ready_message :: "DataSourceType \<Rightarrow> string option" where
  "ready_message Pcap = Some ''Pcap capture initialized and ready''"
| "ready_message Snmp = Some ''SNMP monitoring initialized and ready''"
| "ready_message Netflow = Some ''NetFlow collector initialized and ready''"
| "ready_message Syslog = Some ''Syslog collector initialized and ready''"
| "ready_message Simulated = None"

fun starting_message :: "DataSourceType \<Rightarrow> string" where
  "starting_message Pcap = ''Starting pcap capture...''"
| "starting_message Snmp = ''Starting SNMP monitoring...''"
| "starting_message Netflow = ''Starting NetFlow collector...''"
| "starting_message Syslog = ''Starting syslog collector...''"
| "starting_message Simulated = []"

fun running_message :: "DataSourceType \<Rightarrow> string option" where
  "running_message Pcap = Some ''Pcap capture running''"
| "running_message Snmp = Some ''SNMP monitoring running''"
| "running_message Netflow = Some ''NetFlow collector running''"
| "running_message Syslog = Some ''Syslog collector running''"
| "running_message Simulated = None"

fun stopped_message :: "DataSourceType \<Rightarrow> string option" where
  "stopped_message Pcap = Some ''Pcap capture stopped''"
| "stopped_message Snmp = Some ''SNMP monitoring stopped''"
| "stopped_message Netflow = Some ''NetFlow collector stopped''"
| "stopped_message Syslog = Some ''Syslog collector stopped''"
| "stopped_message Simulated = None"

text \<open>\<open>{ ...this.config, ...config }\<close>: the given fields replace or extend the old ones.\<close>

definition spread :: "(string \<times> json) list \<Rightarrow> (string \<times> json) list option \<Rightarrow> (string \<times> json) list" where
  "spread old given = (case given of None \<Rightarrow> old | Some new \<Rightarrow> AList.merge old new)"

text \<open>
  The last step of \<open>initialize\<close> in the NetFlow and syslog classes logs
  \<open>this.config.exporters.join(", ")\<close> (\<open>facilities\<close> and \<open>severities\<close> for syslog).  The
  class default is an array; a given value that is not an array has no \<open>join\<close>, the call
  throws a \<open>TypeError\<close> and \<open>initialize\<close> returns \<open>false\<close>.
\<close>

fun join_fields :: "DataSourceType \<Rightarrow> string list" where
  "join_fields Netflow = [''exporters'']"
| "join_fields Syslog = [''facilities'', ''severities'']"
| "join_fields k = []"

fun first_unjoinable :: "(string \<times> json) list \<Rightarrow> string list \<Rightarrow> (string \<times> json) option" where
  "first_unjoinable cfg [] = None"
| "first_unjoinable cfg (f # fs) =
     (case map_of cfg f of
        None \<Rightarrow> first_unjoinable cfg fs
      | Some (JArray xs) \<Rightarrow> first_unjoinable cfg fs
      | Some v \<Rightarrow> Some (f, v))"

text \<open>The message of the \<open>TypeError\<close>, as V8 words it.\<close>

definition join_error :: "string \<Rightarrow> json \<Rightarrow> string" where
  "join_error f v =
     (case v of
        JNull \<Rightarrow> ''Cannot read properties of null (reading '' @ [CHR 0x27] @ ''join''
                 @ [CHR 0x27] @ '')''
      | _ \<Rightarrow> ''this.config.'' @ f @ ''.join is not a function'')"

text \<open>
  \<open>initialize\<close> merges the configuration, waits, and leaves the producer stopped and
  returns \<open>true\<close>; when the log line throws, it leaves the producer in the error status
  and returns \<open>false\<close>.  The manager subscribes to the producer only after \<open>initialize\<close>
  has returned, so the status changes and the error raised here reach no subscriber.
\<close>

definition source_initialize ::
  "(string \<times> json) list option \<Rightarrow> NetworkDataSource \<Rightarrow> NetworkDataSource \<times> bool" where
  "source_initialize cfg s =
     (let s1 = s\<lparr>config := spread (config s) cfg\<rparr>
      in case first_unjoinable (config s1) (join_fields (kind s)) of
           None \<Rightarrow>
             (s1\<lparr>current_status := \<lparr>status = Stopped, message = ready_message (kind s)\<rparr>\<rparr>,
              True)
         | Some (f, v) \<Rightarrow>
             (s1\<lparr>current_status := \<lparr>status = ErrorStatus, message = Some (join_error f v)\<rparr>\<rparr>,
              False))"

text \<open>
  \<open>start\<close> and \<open>stop\<close> return the producer and the status objects handed to its
  status subscribers, in order.
\<close>

definition source_start :: "NetworkDataSource \<Rightarrow> NetworkDataSource \<times> DataSourceStatus list" where
  "source_start s =
     (if running s then (s, [])
      else
        (let final = \<lparr>status = Running, message = running_message (kind s)\<rparr>
         in (s\<lparr>running := True, current_status := final\<rparr>,
             (if kind s = Simulated then []
              else [\<lparr>status = Initializing, message = Some (starting_message (kind s))\<rparr>])
             @ [final])))"

definition source_stop :: "NetworkDataSource \<Rightarrow> NetworkDataSource \<times> DataSourceStatus list" where
  "source_stop s =
     (if \<not> running s then (s, [])
      else
        (let final = \<lparr>status = Stopped, message = stopped_message (kind s)\<rparr>
         in (s\<lparr>running := False, current_status := final\<rparr>, [final])))"

definition source_updateConfiguration ::
  "(string \<times> json) list option \<Rightarrow> NetworkDataSource
     \<Rightarrow> NetworkDataSource \<times> DataSourceStatus list \<times> bool" where
  "source_updateConfiguration cfg s =
     (let wasRunning = running s;
          (s1, ev1) = (if wasRunning then source_stop s else (s, []));
          s2 = s1\<lparr>config := spread (config s1) cfg\<rparr>;
          (s3, ev2) = (if wasRunning then source_start s2 else (s2, []))
      in (s3, ev1 @ ev2, True))"

subsection \<open>The manager\<close>

datatype call =
    DataCall nat NetworkDataPoint
  | AnomalyCall nat AnomalyEvent
  | StatusCall nat string DataSourceStatus
  | ErrorCall nat string string

text \<open>
  \<open>dataSources\<close> is a JavaScript \<open>Map\<close>: its entries in insertion order, one per key.
\<close>

record DataManager =
  dataSources :: "(string \<times> NetworkDataSource) list"
  activeSource :: "string option"
  dataCallbacks :: "nat list"
  anomalyCallbacks :: "nat list"
  statusCallbacks :: "nat list"
  errorCallbacks :: "nat list"
  dataHistory :: "NetworkDataPoint list"
  anomalyHistory :: "AnomalyEvent list"

definition maxDataHistorySize :: nat where
  "maxDataHistorySize = 3600"

definition maxAnomalyHistorySize :: nat where
  "maxAnomalyHistorySize = 1000"

text \<open>The fields as the class initialises them, before the constructor body runs.\<close>

definition DataManager_fields :: DataManager where
  "DataManager_fields =
     \<lparr>dataSources = [], activeSource = None, dataCallbacks = [], anomalyCallbacks = [],
      statusCallbacks = [], errorCallbacks = [], dataHistory = [], anomalyHistory = []\<rparr>"

text \<open>\<open>push\<close>, then one \<open>shift\<close> when the length exceeds the bound.\<close>

definition push_bounded :: "nat \<Rightarrow> 'a list \<Rightarrow> 'a \<Rightarrow> 'a list" where
  "push_bounded maxSize history x =
     (let pushed = history @ [x] in if length pushed > maxSize then tl pushed else pushed)"

definition handleData :: "string \<Rightarrow> NetworkDataPoint \<Rightarrow> DataManager \<Rightarrow> call list \<times> DataManager" where
  "handleData sourceId data m =
     (if Some sourceId = activeSource m then
        (map (\<lambda>callback. DataCall callback data) (dataCallbacks m),
         m\<lparr>dataHistory := push_bounded maxDataHistorySize (dataHistory m) data\<rparr>)
      else ([], m))"

definition handleAnomaly :: "string \<Rightarrow> AnomalyEvent \<Rightarrow> DataManager \<Rightarrow> call list \<times> DataManager" where
  "handleAnomaly sourceId anomaly m =
     (if Some sourceId = activeSource m then
        (map (\<lambda>callback. AnomalyCall callback anomaly) (anomalyCallbacks m),
         m\<lparr>anomalyHistory := push_bounded maxAnomalyHistorySize (anomalyHistory m) anomaly\<rparr>)
      else ([], m))"

definition handleStatusChange :: "string \<Rightarrow> DataSourceStatus \<Rightarrow> DataManager \<Rightarrow> call list" where
  "handleStatusChange sourceId st m =
     map (\<lambda>callback. StatusCall callback sourceId st) (statusCallbacks m)"

definition handleError :: "string \<Rightarrow> string \<Rightarrow> DataManager \<Rightarrow> call list" where
  "handleError sourceId err m =
     map (\<lambda>callback. ErrorCall callback sourceId err) (errorCallbacks m)"

text \<open>The status changes of the producer registered as \<open>sourceId\<close>, passed on in order.\<close>

definition dispatch_status :: "string \<Rightarrow> DataSourceStatus list \<Rightarrow> DataManager \<Rightarrow> call list" where
  "dispatch_status sourceId evs m = concat (map (\<lambda>st. handleStatusChange sourceId st m) evs)"

definition has :: "DataManager \<Rightarrow> string \<Rightarrow> bool" where
  "has m sid = (map_of (dataSources m) sid \<noteq> None)"

text \<open>A producer is an object: a change made through one reference shows in the map.\<close>

definition set_source :: "string \<Rightarrow> NetworkDataSource \<Rightarrow> DataManager \<Rightarrow> DataManager" where
  "set_source sid s m =
     m\<lparr>dataSources := map (\<lambda>(k, v). if k = sid then (k, s) else (k, v)) (dataSources m)\<rparr>"

definition addDataSource ::
  "string \<Rightarrow> string \<Rightarrow> (string \<times> json) list option \<Rightarrow> DataManager
     \<Rightarrow> bool \<times> call list \<times> DataManager" where
  "addDataSource sid type cfg m =
     (if has m sid then
        (False, handleError sid (''Data source with ID '' @ sid @ '' already exists'') m, m)
      else
        (case createDataSource type of
           None \<Rightarrow> (False, handleError sid (''Unsupported data source type: '' @ type) m, m)
         | Some dataSource \<Rightarrow>
             (let (dataSource', initialized) = source_initialize cfg dataSource
              in if \<not> initialized then
                   (False, handleError sid (''Failed to initialize data source '' @ sid) m, m)
                 else
                   (let m1 = m\<lparr>dataSources := dataSources m @ [(sid, dataSource')]\<rparr>;
                        m2 = (if length (dataSources m1) = 1
                              then m1\<lparr>activeSource := Some sid\<rparr> else m1)
                    in (True, [], m2)))))"

text \<open>
  \<open>addDataSource\<close> is suspended once, at \<open>await dataSource.initialize(config)\<close>, and other
  calls may run before it resumes.  Its two halves: up to the call of \<open>initialize\<close> (the
  duplicate check, the construction; a failure here is answered at once), and from the
  result of \<open>initialize\<close> on.  A registration in flight is the id with the producer and
  what \<open>initialize\<close> returns for it.
\<close>

record registration =
  reg_id :: string
  reg_source :: NetworkDataSource
  reg_initialized :: bool

definition addDataSource_begin ::
  "string \<Rightarrow> string \<Rightarrow> (string \<times> json) list option \<Rightarrow> DataManager
     \<Rightarrow> call list + registration" where
  "addDataSource_begin sid type cfg m =
     (if has m sid then
        Inl (handleError sid (''Data source with ID '' @ sid @ '' already exists'') m)
      else
        (case createDataSource type of
           None \<Rightarrow> Inl (handleError sid (''Unsupported data source type: '' @ type) m)
         | Some dataSource \<Rightarrow>
             (let (dataSource', initialized) = source_initialize cfg dataSource
              in Inr \<lparr>reg_id = sid, reg_source = dataSource',
                      reg_initialized = initialized\<rparr>)))"

text \<open>\<open>Map.prototype.set\<close>: a key already present keeps its place and gets the new value.\<close>

definition Map_set :: "string \<Rightarrow> 'v \<Rightarrow> (string \<times> 'v) list \<Rightarrow> (string \<times> 'v) list" where
  "Map_set k v kvs =
     (if k \<in> fst ` set kvs then map (\<lambda>(k', v'). if k' = k then (k', v) else (k', v')) kvs
      else kvs @ [(k, v)])"

definition addDataSource_complete ::
  "registration \<Rightarrow> DataManager \<Rightarrow> bool \<times> call list \<times> DataManager" where
  "addDataSource_complete r m =
     (if \<not> reg_initialized r then
        (False,
         handleError (reg_id r) (''Failed to initialize data source '' @ reg_id r) m, m)
      else
        (let m1 = m\<lparr>dataSources := Map_set (reg_id r) (reg_source r) (dataSources m)\<rparr>;
             m2 = (if length (dataSources m1) = 1
                   then m1\<lparr>activeSource := Some (reg_id r)\<rparr> else m1)
         in (True, [], m2)))"

definition removeDataSource :: "string \<Rightarrow> DataManager \<Rightarrow> bool \<times> call list \<times> DataManager" where
  "removeDataSource sid m =
     (case map_of (dataSources m) sid of
        None \<Rightarrow> (False, [], m)
      | Some dataSource \<Rightarrow>
          (let (dataSource', evs) =
                 (if running dataSource then source_stop dataSource else (dataSource, []));
               m1 = m\<lparr>dataSources := filter (\<lambda>(k, v). k \<noteq> sid) (dataSources m)\<rparr>;
               m2 = (if activeSource m1 = Some sid then
                       m1\<lparr>activeSource :=
                            (if length (dataSources m1) > 0
                             then Some (fst (hd (dataSources m1))) else None)\<rparr>
                     else m1)
           in (True, dispatch_status sid evs m, m2)))"

definition getDataSources :: "DataManager \<Rightarrow> (string \<times> NetworkDataSource \<times> bool) list" where
  "getDataSources m = map (\<lambda>(k, source). (k, source, Some k = activeSource m)) (dataSources m)"

definition getDataSource :: "DataManager \<Rightarrow> string \<Rightarrow> NetworkDataSource option" where
  "getDataSource m sid = map_of (dataSources m) sid"

text \<open>
  The first block of \<open>setActiveDataSource\<close>.  \<open>if (this.activeSource)\<close> tests the
  string for truth: \<open>null\<close> and the empty string both fail it.
\<close>

definition stop_current_active :: "DataManager \<Rightarrow> call list \<times> DataManager" where
  "stop_current_active m =
     (case activeSource m of
        None \<Rightarrow> ([], m)
      | Some a \<Rightarrow>
          if a = [] then ([], m)
          else
            (case map_of (dataSources m) a of
               None \<Rightarrow> ([], m)
             | Some currentActive \<Rightarrow>
                 if running currentActive then
                   (let (s, evs) = source_stop currentActive
                    in (dispatch_status a evs m, set_source a s m))
                 else ([], m)))"

text \<open>The last block of \<open>setActiveDataSource\<close>.\<close>

definition start_new_active :: "string \<Rightarrow> DataManager \<Rightarrow> call list \<times> DataManager" where
  "start_new_active sid m =
     (case map_of (dataSources m) sid of
        None \<Rightarrow> ([], m)
      | Some newActive \<Rightarrow>
          if \<not> running newActive then
            (let (s, evs) = source_start newActive
             in (dispatch_status sid evs m, set_source sid s m))
          else ([], m))"

definition setActiveDataSource :: "string \<Rightarrow> DataManager \<Rightarrow> bool \<times> call list \<times> DataManager" where
  "setActiveDataSource sid m =
     (if \<not> has m sid then
        (False, handleError sid (''Data source with ID '' @ sid @ '' does not exist'') m, m)
      else
        (let (calls1, m1) = stop_current_active m;
             m2 = m1\<lparr>activeSource := Some sid\<rparr>;
             (calls2, m3) = start_new_active sid m2
         in (True, calls1 @ calls2, m3)))"

definition startDataSource :: "string \<Rightarrow> DataManager \<Rightarrow> bool \<times> call list \<times> DataManager" where
  "startDataSource sid m =
     (case map_of (dataSources m) sid of
        None \<Rightarrow> (False, handleError sid (''Data source with ID '' @ sid @ '' does not exist'') m, m)
      | Some dataSource \<Rightarrow>
          if \<not> running dataSource then
            (let (s, evs) = source_start dataSource
             in (True, dispatch_status sid evs m, set_source sid s m))
          else (True, [], m))"

definition stopDataSource :: "string \<Rightarrow> DataManager \<Rightarrow> bool \<times> call list \<times> DataManager" where
  "stopDataSource sid m =
     (case map_of (dataSources m) sid of
        None \<Rightarrow> (False, handleError sid (''Data source with ID '' @ sid @ '' does not exist'') m, m)
      | Some dataSource \<Rightarrow>
          if running dataSource then
            (let (s, evs) = source_stop dataSource
             in (True, dispatch_status sid evs m, set_source sid s m))
          else (True, [], m))"

definition updateDataSourceConfig ::
  "string \<Rightarrow> (string \<times> json) list option \<Rightarrow> DataManager \<Rightarrow> bool \<times> call list \<times> DataManager" where
  "updateDataSourceConfig sid cfg m =
     (case map_of (dataSources m) sid of
        None \<Rightarrow> (False, handleError sid (''Data source with ID '' @ sid @ '' does not exist'') m, m)
      | Some dataSource \<Rightarrow>
          (let (s, evs, ok) = source_updateConfiguration cfg dataSource
           in (ok, dispatch_status sid evs m, set_source sid s m)))"

definition getDataHistory :: "DataManager \<Rightarrow> NetworkDataPoint list" where
  "getDataHistory m = dataHistory m"

definition getAnomalyHistory :: "DataManager \<Rightarrow> AnomalyEvent list" where
  "getAnomalyHistory m = anomalyHistory m"

definition onData :: "nat \<Rightarrow> DataManager \<Rightarrow> DataManager" where
  "onData callback m = m\<lparr>dataCallbacks := dataCallbacks m @ [callback]\<rparr>"

definition onAnomaly :: "nat \<Rightarrow> DataManager \<Rightarrow> DataManager" where
  "onAnomaly callback m = m\<lparr>anomalyCallbacks := anomalyCallbacks m @ [callback]\<rparr>"

definition onStatus :: "nat \<Rightarrow> DataManager \<Rightarrow> DataManager" where
  "onStatus callback m = m\<lparr>statusCallbacks := statusCallbacks m @ [callback]\<rparr>"

definition onError :: "nat \<Rightarrow> DataManager \<Rightarrow> DataManager" where
  "onError callback m = m\<lparr>errorCallbacks := errorCallbacks m @ [callback]\<rparr>"

text \<open>
  The constructor calls \<open>this.addDataSource("simulated", "simulated")\<close> and does not
  await it: \<open>new DataManager()\<close> returns the initial fields, with the registration of the
  built-in producer in flight.
\<close>

definition DataManager_new :: "DataManager \<times> (call list + registration)" where
  "DataManager_new =
     (DataManager_fields,
      addDataSource_begin ''simulated'' ''simulated'' None DataManager_fields)"

text \<open>
  The manager once the registration of the built-in producer has completed, no other
  call having run in between.
\<close>

definition builtin_registered :: DataManager where
  "builtin_registered =
     snd (snd (addDataSource ''simulated'' ''simulated'' None DataManager_fields))"

text \<open>
  The states of a manager: the initial fields, and what any public method, the second
  half of any registration in flight, or any event of a producer makes of a state.  Data
  and anomaly events are allowed from any id, registered or not, and a registration that
  completes may carry any producer.
\<close>

inductive reachable :: "DataManager \<Rightarrow> bool" where
  r_fields: "reachable DataManager_fields"
| r_add: "reachable m \<Longrightarrow> reachable (snd (snd (addDataSource sid type cfg m)))"
| r_complete: "reachable m \<Longrightarrow> reachable (snd (snd (addDataSource_complete r m)))"
| r_remove: "reachable m \<Longrightarrow> reachable (snd (snd (removeDataSource sid m)))"
| r_setActive: "reachable m \<Longrightarrow> reachable (snd (snd (setActiveDataSource sid m)))"
| r_start: "reachable m \<Longrightarrow> reachable (snd (snd (startDataSource sid m)))"
| r_stop: "reachable m \<Longrightarrow> reachable (snd (snd (stopDataSource sid m)))"
| r_update: "reachable m \<Longrightarrow> reachable (snd (snd (updateDataSourceConfig sid cfg m)))"
| r_data: "reachable m \<Longrightarrow> reachable (snd (handleData sourceId data m))"
| r_anomaly: "reachable m \<Longrightarrow> reachable (snd (handleAnomaly sourceId anomaly m))"
| r_onData: "reachable m \<Longrightarrow> reachable (onData callback m)"
| r_onAnomaly: "reachable m \<Longrightarrow> reachable (onAnomaly callback m)"
| r_onStatus: "reachable m \<Longrightarrow> reachable (onStatus callback m)"
| r_onError: "reachable m \<Longrightarrow> reachable (onError callback m)"

text \<open>A run of samples, or of anomalies, all from the producer \<open>sourceId\<close>.\<close>

definition handleData_run :: "string \<Rightarrow> NetworkDataPoint list \<Rightarrow> DataManager \<Rightarrow> DataManager" where
  "handleData_run sourceId ds m = fold (\<lambda>d m'. snd (handleData sourceId d m')) ds m"

definition handleAnomaly_run :: "string \<Rightarrow> AnomalyEvent list \<Rightarrow> DataManager \<Rightarrow> DataManager" where
  "handleAnomaly_run sourceId as m = fold (\<lambda>a m'. snd (handleAnomaly sourceId a m')) as m"

text \<open>
  What every state of a manager satisfies: the keys of the map are distinct, the active
  id (when there is one) is a key, and the histories are within their bounds.
\<close>

definition consistent :: "DataManager \<Rightarrow> bool" where
  "consistent m =
     (distinct (map fst (dataSources m)) \<and>
      set_option (activeSource m) \<subseteq> fst ` set (dataSources m) \<and>
      length (dataHistory m) \<le> maxDataHistorySize \<and>
      length (anomalyHistory m) \<le> maxAnomalyHistorySize)"

subsection \<open>Example values\<close>

definition example_point :: "real \<Rightarrow> NetworkDataPoint" where
  "example_point t =
     \<lparr>dp_timestamp = Fin t, dp_packetsPerSecond = Fin 500, dp_bandwidth = Fin 50,
      dp_activeConnections = Fin 100, dp_errorRate = Fin 1, dp_source = Some ''simulated'',
      dp_additionalMetrics = None\<rparr>"

definition example_event :: "real \<Rightarrow> AnomalyEvent" where
  "example_event t =
     \<lparr>ev_id = ''anomaly-1'', ev_timestamp = Fin t, ev_type = ''traffic_spike'',
      ev_severity = Warning, ev_source = ''10.0.0.25'',
      ev_description = ''Sudden increase in network traffic detected.'',
      ev_duration = None,
      ev_metrics = Some \<lparr>ev_threshold = Fin 100, ev_actualValue = Fin 180, ev_deviation = Fin 80\<rparr>,
      ev_recommendedAction = ''Monitor traffic patterns and check for scheduled data transfers.''\<rparr>"

text \<open>A manager whose two histories are full.\<close>

definition full_manager :: DataManager where
  "full_manager =
     builtin_registered\<lparr>dataHistory := map example_point (map real [0..<3600]),
                      anomalyHistory := map example_event (map real [0..<1000])\<rparr>"

text \<open>
  A manager after four calls on a new one: a producer is registered under the empty
  string, made active (and so started), and a producer \<open>b\<close> is registered.
\<close>

definition with_empty_id :: DataManager where
  "with_empty_id =
     snd (snd (addDataSource ''b'' ''pcap'' None
       (snd (snd (setActiveDataSource []
         (snd (snd (addDataSource [] ''pcap'' None builtin_registered))))))))"

text \<open>What \<open>getDataSources\<close> shows of each entry: id, running, active.\<close>

definition flags :: "DataManager \<Rightarrow> (string \<times> bool \<times> bool) list" where
  "flags m = map (\<lambda>(k, source, active). (k, running source, active)) (getDataSources m)"


subsection \<open>A scenario: thirty steady samples, then a spike\<close>

definition steady :: "real \<Rightarrow> NetworkData" where
  "steady t = \<lparr>timestamp = Fin t, packetsPerSecond = Fin 500, bandwidth = Fin 50,
               activeConnections = Fin 100, errorRate = Fin 1\<rparr>"

definition spike :: "real \<Rightarrow> NetworkData" where
  "spike t = \<lparr>timestamp = Fin t, packetsPerSecond = Fin 2000, bandwidth = Fin 50,
              activeConnections = Fin 100, errorRate = Fin 1\<rparr>"

definition baseline :: "NetworkData list" where
  "baseline = map (\<lambda>i. steady (real i)) [0..<30]"

definition spike_anomaly :: Anomaly where
  "spike_anomaly =
     \<lparr>a_timestamp = Fin 30, a_type = ''traffic_spike'', a_severity = Warning,
      a_source = ''Anomaly Detection Engine'',
      a_description = UnusualPacketRate (Fin 2000) (Fin 550),
      a_metrics = \<lparr>threshold = Fin 550, actualValue = Fin 2000, deviation = Fin 264\<rparr>\<rparr>"

definition steady_valued :: "NetworkData \<Rightarrow> bool" where
  "steady_valued d \<longleftrightarrow> timestamp d \<noteq> NaN \<and> packetsPerSecond d = Fin 500 \<and>
     bandwidth d = Fin 50 \<and> activeConnections d = Fin 100 \<and> errorRate d = Fin 1"

text \<open>
  A manager with two producers, the built-in one active and running: \<open>b\<close> was added and
  \<open>simulated\<close> made the active source.
\<close>

definition two_sources :: DataManager where
  "two_sources =
     snd (snd (setActiveDataSource ''simulated''
       (snd (snd (addDataSource ''b'' ''pcap'' None builtin_registered)))))"

text \<open>The registration the constructor leaves in flight.\<close>

definition builtin_registration :: registration where
  "builtin_registration =
     \<lparr>reg_id = ''simulated'',
      reg_source = \<lparr>kind = Simulated, running = False,
                    current_status = \<lparr>status = Stopped, message = None\<rparr>, config = []\<rparr>,
      reg_initialized = True\<rparr>"

section \<open>Properties of the detector\<close>

lemma parse_to_json:
  "timestamp d \<noteq> NaN \<Longrightarrow> packetsPerSecond d \<noteq> NaN \<Longrightarrow> bandwidth d \<noteq> NaN \<Longrightarrow>
   activeConnections d \<noteq> NaN \<Longrightarrow> errorRate d \<noteq> NaN \<Longrightarrow>
   NetworkDataSchema_parse (to_json d) = Some d"
  by (simp add: NetworkDataSchema_parse_def to_json_def number_field_def)

subsection \<open>Values that are not numbers\<close>

lemma NaN_right [simp]:
  "js_add rt a NaN = NaN" "js_mul rt a NaN = NaN" "js_div rt a NaN = NaN"
  "js_lt a NaN = False" "js_lt NaN a = False"
  by (cases a; simp)+

lemma js_sub_NaN [simp]: "js_sub rt a NaN = NaN" "js_sub rt NaN b = NaN"
  by (simp_all add: js_sub_def)

subsection \<open>The exact runtime\<close>

lemma exact_runtime_simps [simp]:
  "rnd exact_runtime x = Fin x"
  "sqrt_approx exact_runtime x = Fin (sqrt x)"
  "square_approx exact_runtime x = Fin (x\<^sup>2)"
  by (simp_all add: exact_runtime_def)

lemma exact_sub [simp]: "js_sub exact_runtime (Fin x) (Fin y) = Fin (x - y)"
  by (simp add: js_sub_def)

lemma exact_sqrt [simp]: "0 \<le> x \<Longrightarrow> Math_sqrt exact_runtime (Fin x) = Fin (sqrt x)"
  by simp

lemma exact_pow_2 [simp]: "Math_pow_2 exact_runtime (Fin x) = Fin (x\<^sup>2)"
  by simp

lemma exact_sum:
  "foldl (\<lambda>sum val. js_add exact_runtime sum val) (Fin a) (map Fin xs) = Fin (a + sum_list xs)"
  by (induction xs arbitrary: a) simp_all

lemma exact_sum_squares:
  "foldl (\<lambda>sum val. js_add exact_runtime sum (Math_pow_2 exact_runtime (js_sub exact_runtime val (Fin c))))
     (Fin a) (map Fin xs) = Fin (a + sum_list (map (\<lambda>x. (x - c)\<^sup>2) xs))"
  by (induction xs arbitrary: a) simp_all

lemma exact_mean:
  "xs \<noteq> [] \<Longrightarrow> mean_of exact_runtime (map Fin xs) = Fin (sum_list xs / real (length xs))"
  by (simp add: mean_of_def exact_sum)

lemma exact_stdDev:
  "xs \<noteq> [] \<Longrightarrow>
     stdDev_of exact_runtime (map Fin xs) =
       Fin (sqrt (sum_list (map (\<lambda>x. (x - sum_list xs / real (length xs))\<^sup>2) xs)
                  / real (length xs)))"
proof -
  assume ne: "xs \<noteq> []"
  have "0 \<le> sum_list (map (\<lambda>x. (x - c)\<^sup>2) xs)" for c :: real
    by (induction xs) simp_all
  then have nn: "0 \<le> sum_list (map (\<lambda>x. (x - c)\<^sup>2) xs) / real (length xs)" for c :: real
    by simp
  show ?thesis
    using ne by (simp add: stdDev_of_def exact_mean exact_sum_squares exact_sqrt [OF nn]
        del: Math_sqrt.simps)
qed

lemma empty_window:
  "mean_of exact_runtime [] = NaN" "stdDev_of exact_runtime [] = NaN"
  by (simp_all add: mean_of_def stdDev_of_def)

lemma exact_zScore:
  "s \<noteq> 0 \<Longrightarrow> zScore exact_runtime (Fin v) (Fin m) (Fin s) = Fin \<bar>(v - m) / s\<bar>"
  by (simp add: zScore_def)

subsection \<open>Accurate and monotone runtimes\<close>

lemma exact_accurate: "accurate exact_runtime"
  by (simp add: accurate_def exact_runtime_def unit_roundoff_def)

lemma exact_monotone: "monotone_rounding exact_runtime"
  by (auto simp: monotone_rounding_def exact_runtime_def js_le_def)

lemma rnd_half: "accurate rt \<Longrightarrow> \<bar>k\<bar> \<le> 2 ^ 53 \<Longrightarrow> rnd rt (of_int k / 2) = Fin (of_int k / 2)"
  by (simp add: accurate_def)

lemma rnd_int: 
  assumes "accurate rt" "\<bar>k\<bar> \<le> 2 ^ 52" 
  shows "rnd rt (of_int k) = Fin (of_int k)"
  using rnd_half [OF assms(1), of "2 * k"] assms(2) by simp

lemma rnd_numeral:
  assumes "accurate rt"
  shows "rnd rt 0 = Fin 0" "rnd rt 1 = Fin 1"
    "(numeral n :: int) \<le> 2 ^ 52 \<Longrightarrow> rnd rt (numeral n) = Fin (numeral n)"
    "(numeral n :: int) \<le> 2 ^ 52 \<Longrightarrow> rnd rt (- numeral n) = Fin (- numeral n)"
  using rnd_int [OF assms, of 0] rnd_int [OF assms, of 1]
    rnd_int [OF assms, of "numeral n"] rnd_int [OF assms, of "- numeral n"]
  by simp_all

lemma rnd_near:
  assumes "accurate rt" "1 / 10 ^ 6 \<le> \<bar>x\<bar>" "\<bar>x\<bar> \<le> 10 ^ 9"
  shows "\<exists>y. rnd rt x = Fin y \<and> \<bar>y - x\<bar> \<le> \<bar>x\<bar> / 10 ^ 6"
proof -
  have "(1::real) / 2 ^ 1022 \<le> 1 / 10 ^ 6" "(10::real) ^ 9 \<le> 2 ^ 1023" by simp_all
  with assms(2,3) have "normal_range x" unfolding normal_range_def by linarith
  with assms(1) obtain y where y: "rnd rt x = Fin y" "\<bar>y - x\<bar> \<le> \<bar>x\<bar> * unit_roundoff"
    unfolding accurate_def by blast
  have "\<bar>x\<bar> * unit_roundoff \<le> \<bar>x\<bar> * (1 / 10 ^ 6)"
    by (intro mult_left_mono) (simp_all add: unit_roundoff_def)
  with y show ?thesis by auto
qed

lemma sqrt_near:
  assumes "accurate rt" "1 \<le> x" "x \<le> 10 ^ 9"
  shows "\<exists>y. sqrt_approx rt x = Fin y \<and> \<bar>y - sqrt x\<bar> \<le> sqrt x / 10 ^ 6"
proof -
  have "(1::real) / 2 ^ 1022 \<le> 1" "(10::real) ^ 9 \<le> 2 ^ 1023" by simp_all
  with assms(2,3) have "normal_range x" "0 < x" unfolding normal_range_def by simp_all
  with assms(1) obtain y where y: "sqrt_approx rt x = Fin y"
    "\<bar>y - sqrt x\<bar> \<le> sqrt x * unit_roundoff"
    unfolding accurate_def by blast
  have "sqrt x * unit_roundoff \<le> sqrt x * (1 / 10 ^ 6)"
    by (intro mult_left_mono) (use \<open>0 < x\<close> in \<open>simp_all add: unit_roundoff_def\<close>)
  with y show ?thesis by auto
qed

lemma square_int:
  "accurate rt \<Longrightarrow> k\<^sup>2 \<le> 2 ^ 53 \<Longrightarrow> square_approx rt (of_int k) = Fin (of_int (k\<^sup>2))"
  by (simp add: accurate_def)

lemma int_sum:
  assumes "accurate rt"
  shows "0 \<le> a \<Longrightarrow> \<forall>k \<in> set ks. 0 \<le> k \<Longrightarrow> a + sum_list ks \<le> 2 ^ 52 \<Longrightarrow>
    foldl (\<lambda>sum val. js_add rt sum val) (Fin (of_int a)) (map (\<lambda>k. Fin (of_int k)) ks)
      = Fin (of_int (a + sum_list ks))"
proof (induction ks arbitrary: a)
  case Nil
  then show ?case by simp
next
  case (Cons k ks)
  have "0 \<le> sum_list ks" using Cons.prems(2) by (intro sum_list_nonneg) simp
  with Cons.prems have "\<bar>a + k\<bar> \<le> 2 ^ 52" by simp
  from rnd_int [OF assms this]
  have "js_add rt (Fin (of_int a)) (Fin (of_int k)) = Fin (of_int (a + k))" by simp
  moreover have "foldl (\<lambda>sum val. js_add rt sum val) (Fin (of_int (a + k)))
      (map (\<lambda>k. Fin (of_int k)) ks) = Fin (of_int (a + k + sum_list ks))"
    using Cons.prems by (intro Cons.IH) simp_all
  ultimately show ?case by (simp add: add.assoc)
qed

lemma mean_int:
  assumes "accurate rt" "\<forall>k \<in> set ks. 0 \<le> k" "sum_list ks \<le> 2 ^ 52" "length ks \<le> 30"
  shows "mean_of rt (map (\<lambda>k. Fin (of_int k)) ks)
           = js_div rt (Fin (of_int (sum_list ks))) (Fin (real (length ks)))"
proof -
  have "rnd rt (real (length ks)) = Fin (real (length ks))"
    using rnd_int [OF assms(1), of "int (length ks)"] assms(4) by simp
  moreover have "rnd rt 0 = Fin (of_int 0)" using rnd_numeral(1) [OF assms(1)] by simp
  ultimately show ?thesis
    unfolding mean_of_def using int_sum [OF assms(1), of 0 ks] assms(2,3) by simp
qed

lemma abs_le_square: "\<bar>d\<bar> \<le> d\<^sup>2" for d :: int
proof (cases "d = 0")
  case True
  then show ?thesis by simp
next
  case False
  then have "1 \<le> \<bar>d\<bar>" by simp
  then have "\<bar>d\<bar> * 1 \<le> \<bar>d\<bar> * \<bar>d\<bar>" by (intro mult_left_mono) auto
  then show ?thesis by (simp add: power2_eq_square)
qed

lemma stdDev_int:
  assumes acc: "accurate rt"
    and mean: "mean_of rt (map (\<lambda>k. Fin (of_int k)) ks) = Fin (of_int \<mu>)"
    and small: "\<forall>k \<in> set ks. (k - \<mu>)\<^sup>2 \<le> 2 ^ 52"
    and total: "sum_list (map (\<lambda>k. (k - \<mu>)\<^sup>2) ks) \<le> 2 ^ 52"
    and len: "length ks \<le> 30"
  shows "stdDev_of rt (map (\<lambda>k. Fin (of_int k)) ks)
           = Math_sqrt rt (js_div rt (Fin (of_int (sum_list (map (\<lambda>k. (k - \<mu>)\<^sup>2) ks))))
               (Fin (real (length ks))))"
proof -
  have sqt: "Math_pow_2 rt (js_sub rt (Fin (of_int k)) (Fin (of_int \<mu>)))
      = Fin (of_int ((k - \<mu>)\<^sup>2))" if "k \<in> set ks" for k
  proof -
    from small that have sq: "(k - \<mu>)\<^sup>2 \<le> 2 ^ 52" by blast
    with abs_le_square [of "k - \<mu>"] have "\<bar>k - \<mu>\<bar> \<le> 2 ^ 52" by linarith
    from rnd_int [OF acc this]
    have "js_sub rt (Fin (of_int k)) (Fin (of_int \<mu>)) = Fin (of_int (k - \<mu>))"
      by (simp add: js_sub_def)
    moreover have "square_approx rt (of_int (k - \<mu>)) = Fin (of_int ((k - \<mu>)\<^sup>2))"
      using sq by (intro square_int [OF acc]) simp
    ultimately show ?thesis by simp
  qed
  have "foldl (\<lambda>sum val. js_add rt sum (Math_pow_2 rt (js_sub rt val (Fin (of_int \<mu>)))))
          (rnd rt 0) (map (\<lambda>k. Fin (of_int k)) ks)
        = foldl (\<lambda>sum val. js_add rt sum val) (Fin (of_int 0))
            (map (\<lambda>k. Math_pow_2 rt (js_sub rt (Fin (of_int k)) (Fin (of_int \<mu>)))) ks)"
    using rnd_numeral(1) [OF acc] by (simp add: foldl_map)
  also have "map (\<lambda>k. Math_pow_2 rt (js_sub rt (Fin (of_int k)) (Fin (of_int \<mu>)))) ks
      = map (\<lambda>k. Fin (of_int k)) (map (\<lambda>k. (k - \<mu>)\<^sup>2) ks)"
    using sqt by simp
  also have "foldl (\<lambda>sum val. js_add rt sum val) (Fin (of_int 0)) \<dots>
      = Fin (of_int (0 + sum_list (map (\<lambda>k. (k - \<mu>)\<^sup>2) ks)))"
    using total by (intro int_sum [OF acc]) auto
  finally have sum: "foldl (\<lambda>sum val. js_add rt sum (Math_pow_2 rt (js_sub rt val (Fin (of_int \<mu>)))))
          (rnd rt 0) (map (\<lambda>k. Fin (of_int k)) ks)
        = Fin (of_int (sum_list (map (\<lambda>k. (k - \<mu>)\<^sup>2) ks)))" by simp
  have "rnd rt (real (length ks)) = Fin (real (length ks))"
    using rnd_int [OF acc, of "int (length ks)"] len by simp
  then show ?thesis
    unfolding stdDev_of_def mean sum by simp
qed

subsection \<open>The scenario, evaluated\<close>

lemma window_spike:
  "window_values (baseline @ [spike 30]) m =
     replicate 29 (metric_of m (steady 0)) @ [metric_of m (spike 30)]"
proof -
  have "slice_last 30 (baseline @ [spike 30]) = map (\<lambda>i. steady (real i)) [1..<30] @ [spike 30]"
    by (simp add: slice_last_def baseline_def drop_map)
  moreover have "map (metric_of m) (map (\<lambda>i. steady (real i)) [1..<30])
                 = replicate 29 (metric_of m (steady 0))"
    by (cases m) (simp_all add: steady_def map_replicate_const o_def)
  ultimately show ?thesis by (simp add: window_values_def)
qed

lemma parse_steady_valued: "steady_valued d \<Longrightarrow> NetworkDataSchema_parse (to_json d) = Some d"
  by (simp add: parse_to_json steady_valued_def)

lemma feed_append: "feed rt st (xs @ ys) =
  (fst (feed rt (fst (feed rt st xs)) ys),
   snd (feed rt st xs) @ snd (feed rt (fst (feed rt st xs)) ys))"
  by (induction xs arbitrary: st) (simp_all add: split_def Let_def)

lemma parse_spike: "NetworkDataSchema_parse (to_json (spike 30)) = Some (spike 30)"
  by (rule parse_to_json) (simp_all add: spike_def)

lemma window_constant:
  assumes "\<forall>d \<in> set history. metric_of m d = x"
  shows "window_values history m = replicate (length (window_values history m)) x"
    and "length (window_values history m) \<le> 30"
proof -
  have "\<forall>y \<in> set (window_values history m). y = x"
    using assms by (auto simp: window_values_def slice_last_def dest: in_set_dropD)
  then show "window_values history m = replicate (length (window_values history m)) x"
    by (simp add: replicate_length_same)
  show "length (window_values history m) \<le> 30"
    by (simp add: window_values_def slice_last_def)
qed

lemma rnd_tenth:
  assumes "accurate rt"
  shows "\<exists>y. rnd rt 0.1 = Fin y \<and> 0 < y \<and> y < 1"
proof -
  from rnd_near [OF assms, of "0.1"] obtain y
    where y: "rnd rt 0.1 = Fin y" and b: "\<bar>y - 0.1\<bar> \<le> \<bar>0.1\<bar> / 10 ^ 6" by auto
  from b have "0 < y" "y < 1" by (simp_all add: abs_if split: if_splits)
  with y show ?thesis by blast
qed

lemma quiet_metric:
  assumes acc: "accurate rt"
    and same: "\<forall>d \<in> set history. metric_of m d = Fin (of_int c)"
    and c: "0 \<le> c" "c \<le> 2 ^ 40"
  shows "detect_metric rt history cur m = []"
proof -
  define n where "n = length (window_values history m)"
  have w: "window_values history m = map (\<lambda>k. Fin (of_int k)) (replicate n c)" and n: "n \<le> 30"
    using window_constant [OF same] by (simp_all add: n_def)
  have r0: "rnd rt 0 = Fin 0" by (rule rnd_numeral(1) [OF acc])
  from rnd_tenth [OF acc] obtain y where y: "rnd rt 0.1 = Fin y" "0 < y" by blast
  show ?thesis
  proof (cases "n = 0")
    case True
    then have "mean_of rt (window_values history m) = NaN"
      "stdDev_of rt (window_values history m) = NaN"
      by (simp_all add: w mean_of_def stdDev_of_def r0)
    then show ?thesis
      by (simp add: detect_metric_def Let_def zScore_def js_gt_def)
  next
    case False
    have "int n * c \<le> 30 * 2 ^ 40"
      using n c by (intro mult_mono) simp_all
    then have tot: "sum_list (replicate n c) \<le> 2 ^ 52"
      by (simp add: sum_list_replicate)
    have "mean_of rt (window_values history m)
        = js_div rt (Fin (of_int (sum_list (replicate n c)))) (Fin (real (length (replicate n c))))"
      unfolding w using c n tot by (intro mean_int [OF acc]) simp_all
    also have "\<dots> = rnd rt (of_int c)"
      using False by (simp add: sum_list_replicate)
    also have "\<dots> = Fin (of_int c)"
      using c by (intro rnd_int [OF acc]) simp
    finally have mean: "mean_of rt (map (\<lambda>k. Fin (of_int k)) (replicate n c)) = Fin (of_int c)"
      by (simp add: w)
    have "stdDev_of rt (map (\<lambda>k. Fin (of_int k)) (replicate n c))
        = Math_sqrt rt (js_div rt (Fin (of_int (sum_list (map (\<lambda>k. (k - c)\<^sup>2) (replicate n c)))))
            (Fin (real (length (replicate n c)))))"
      using n by (intro stdDev_int [OF acc mean]) (simp_all add: sum_list_replicate)
    also have "\<dots> = Fin 0"
      using False by (simp add: sum_list_replicate r0)
    finally have "stdDev_of rt (window_values history m) = Fin 0" by (simp add: w)
    then show ?thesis using y by (simp add: detect_metric_def Let_def)
  qed
qed

lemma quiet_history:
  assumes "accurate rt" "\<forall>d \<in> set history. steady_valued d"
  shows "detectAnomalies rt history cur = []"
proof -
  have "detect_metric rt history cur m = []" for m
  proof (cases m)
    case PacketsPerSecond
    show ?thesis using assms(2)
      by (intro quiet_metric [OF assms(1), where c = 500])
         (simp_all add: PacketsPerSecond steady_valued_def)
  next
    case Bandwidth
    show ?thesis using assms(2)
      by (intro quiet_metric [OF assms(1), where c = 50])
         (simp_all add: Bandwidth steady_valued_def)
  next
    case ActiveConnections
    show ?thesis using assms(2)
      by (intro quiet_metric [OF assms(1), where c = 100])
         (simp_all add: ActiveConnections steady_valued_def)
  next
    case ErrorRate
    show ?thesis using assms(2)
      by (intro quiet_metric [OF assms(1), where c = 1])
         (simp_all add: ErrorRate steady_valued_def)
  qed
  then show ?thesis by (simp add: detectAnomalies_def metrics_def)
qed

lemma feed_steady:
  assumes "accurate rt"
    and "\<forall>d \<in> set (networkDataHistory st). steady_valued d"
    and "\<forall>d \<in> set ds. steady_valued d"
    and "length (networkDataHistory st) + length ds \<le> 1000"
  shows "feed rt st (map to_json ds) =
           (st\<lparr>networkDataHistory := networkDataHistory st @ ds\<rparr>,
            replicate (length ds) (Success 0))"
  using assms(2-)
proof (induction ds arbitrary: st)
  case Nil
  then show ?case by simp
next
  case (Cons d ds)
  let ?st1 = "st\<lparr>networkDataHistory := networkDataHistory st @ [d]\<rparr>"
  have "detectAnomalies rt (networkDataHistory st @ [d]) d = []"
    using Cons.prems by (intro quiet_history [OF assms(1)]) auto
  moreover have "NetworkDataSchema_parse (to_json d) = Some d"
    using Cons.prems by (simp add: parse_steady_valued)
  ultimately have post: "POST rt st (to_json d) = (?st1, Success 0)"
    using Cons.prems(3) by (simp add: POST_def Let_def)
  have "feed rt ?st1 (map to_json ds) =
          (?st1\<lparr>networkDataHistory := networkDataHistory ?st1 @ ds\<rparr>,
           replicate (length ds) (Success 0))"
    using Cons.prems by (intro Cons.IH) auto
  with post show ?case by simp
qed

lemma feed_baseline:
  assumes "accurate rt"
  shows "feed rt initial_route_state (map to_json baseline) =
     (\<lparr>networkDataHistory = baseline, detectedAnomalies = []\<rparr>, replicate 30 (Success 0))"
  using feed_steady [OF assms, of initial_route_state baseline]
  by (simp add: initial_route_state_def) (simp add: baseline_def steady_valued_def steady_def)

lemma sqrt_72500: "269 < sqrt 72500" "sqrt 72500 < 270"
proof -
  have "sqrt (269\<^sup>2) < sqrt 72500" by (subst real_sqrt_less_iff) simp
  then show "269 < sqrt 72500" by simp
  have "sqrt 72500 < sqrt (270\<^sup>2)" by (subst real_sqrt_less_iff) simp
  then show "sqrt 72500 < 270" by simp
qed

lemma spike_window_int:
  "window_values (baseline @ [spike 30]) PacketsPerSecond
     = map (\<lambda>k. Fin (of_int k)) (replicate 29 500 @ [2000])"
  unfolding window_spike by (simp add: steady_def spike_def)

lemma spike_mean:
  assumes "accurate rt"
  shows "mean_of rt (window_values (baseline @ [spike 30]) PacketsPerSecond) = Fin 550"
proof -
  have "mean_of rt (map (\<lambda>k. Fin (of_int k)) (replicate 29 500 @ [2000]))
      = js_div rt (Fin (of_int (sum_list (replicate 29 500 @ [2000]))))
          (Fin (real (length (replicate 29 (500::int) @ [2000]))))"
    by (intro mean_int [OF assms]) (simp_all add: sum_list_replicate)
  also have "\<dots> = rnd rt 550" by (simp add: sum_list_replicate)
  also have "\<dots> = Fin 550" by (intro rnd_numeral(3) [OF assms]) simp
  finally show ?thesis unfolding spike_window_int .
qed

lemma spike_stdDev:
  assumes "accurate rt"
  shows "\<exists>s. stdDev_of rt (window_values (baseline @ [spike 30]) PacketsPerSecond) = Fin s \<and>
             268 < s \<and> s < 271"
proof -
  have mean: "mean_of rt (map (\<lambda>k. Fin (of_int k)) (replicate 29 500 @ [2000])) = Fin (of_int 550)"
    using spike_mean [OF assms] unfolding spike_window_int by simp
  have "stdDev_of rt (map (\<lambda>k. Fin (of_int k)) (replicate 29 500 @ [2000]))
      = Math_sqrt rt (js_div rt
          (Fin (of_int (sum_list (map (\<lambda>k. (k - 550)\<^sup>2) (replicate 29 500 @ [2000])))))
          (Fin (real (length (replicate 29 (500::int) @ [2000])))))"
    by (intro stdDev_int [OF assms mean]) (simp_all add: sum_list_replicate)
  also have "\<dots> = Math_sqrt rt (rnd rt 72500)" by (simp add: sum_list_replicate)
  also have "rnd rt 72500 = Fin 72500" by (intro rnd_numeral(3) [OF assms]) simp
  also have "Math_sqrt rt (Fin 72500) = sqrt_approx rt 72500" by simp
  finally have sd: "stdDev_of rt (window_values (baseline @ [spike 30]) PacketsPerSecond)
      = sqrt_approx rt 72500" unfolding spike_window_int .
  from sqrt_near [OF assms, of 72500] obtain s
    where s: "sqrt_approx rt 72500 = Fin s" and b: "\<bar>s - sqrt 72500\<bar> \<le> sqrt 72500 / 10 ^ 6"
    by auto
  from b sqrt_72500 have "268 < s" "s < 271" by (simp_all add: abs_if split: if_splits)
  with sd s show ?thesis by simp
qed


lemma spike_pps:
  assumes acc: "accurate rt"
  shows "detect_metric rt (baseline @ [spike 30]) (spike 30) PacketsPerSecond = [spike_anomaly]"
proof -
  note n = rnd_numeral [OF acc]
  from spike_stdDev [OF acc] obtain s
    where sd: "stdDev_of rt (window_values (baseline @ [spike 30]) PacketsPerSecond) = Fin s"
      and s: "268 < s" "s < 271" by blast
  from rnd_tenth [OF acc] obtain y where y: "rnd rt 0.1 = Fin y" "y < 1" by blast
  have guard: "\<not> js_lt (Fin s) (rnd rt 0.1)" using y s by simp
  have T: "ZSCORE_THRESHOLD rt = Fin 3" by (simp add: ZSCORE_THRESHOLD_def n)
  have T2: "js_mul rt (Fin 3) (rnd rt 2) = Fin 6" by (simp add: n)
  have T15: "rnd rt (3 / 2) = Fin (3 / 2)" "rnd rt (9 / 2) = Fin (9 / 2)"
    using rnd_half [OF acc, of 3] rnd_half [OF acc, of 9] by simp_all
  define r where "r = 1450 / s"
  have q: "5 < r" "r < 5.5"
    using s by (simp_all add: r_def pos_less_divide_eq pos_divide_less_eq)
  then have "1 / 10 ^ 6 \<le> \<bar>r\<bar>" "\<bar>r\<bar> \<le> 10 ^ 9" by simp_all
  from rnd_near [OF acc this] obtain z
    where z: "rnd rt r = Fin z" and zb: "\<bar>z - r\<bar> \<le> \<bar>r\<bar> / 10 ^ 6"
    by blast
  from zb q have zr: "4.9 < z" "z < 5.6" by (simp_all add: abs_if split: if_splits)
  have zs: "zScore rt (Fin 2000) (Fin 550) (Fin s) = Fin z"
    using s z zr by (simp add: zScore_def js_sub_def n r_def)
  have sev: "severity_of rt (Fin z) = Warning"
    using zr by (simp add: severity_of_def T T2 T15 js_gt_def)
  have "1 / 10 ^ 6 \<le> \<bar>29 / 11 :: real\<bar>" "\<bar>29 / 11 :: real\<bar> \<le> 10 ^ 9" by simp_all
  from rnd_near [OF acc this] obtain d
    where d: "rnd rt (29 / 11) = Fin d" and db: "\<bar>d - 29 / 11\<bar> \<le> \<bar>29 / 11\<bar> / 10 ^ 6"
    by blast
  from db have dr: "2.6363 < d" "d < 2.6364" by (simp_all add: abs_if split: if_splits)
  define p where "p = d * 100"
  have pr: "263.63 < p" "p < 263.64" using dr by (simp_all add: p_def)
  then have "1 / 10 ^ 6 \<le> \<bar>p\<bar>" "\<bar>p\<bar> \<le> 10 ^ 9" by simp_all
  from rnd_near [OF acc this] obtain e
    where e: "rnd rt p = Fin e" and eb: "\<bar>e - p\<bar> \<le> \<bar>p\<bar> / 10 ^ 6"
    by blast
  from eb pr have er: "263.5 < e" "e < 264.5" by (simp_all add: abs_if split: if_splits)
  then have "round e = 264" unfolding round_def by (intro floor_unique) simp_all
  then have dev: "Math_abs (Math_round (js_mul rt
      (js_div rt (js_sub rt (Fin 2000) (Fin 550)) (Fin 550)) (rnd rt 100))) = Fin 264"
    using e by (simp add: js_sub_def n d p_def)
  have v: "metric_of PacketsPerSecond (spike 30) = Fin 2000" "timestamp (spike 30) = Fin 30"
    by (simp_all add: spike_def)
  show ?thesis
    unfolding detect_metric_def spike_mean [OF acc] sd Let_def v zs T
    using guard zr sev dev
    by (simp add: spike_anomaly_def js_gt_def)
qed

lemma spike_detected:
  assumes acc: "accurate rt"
  shows "detectAnomalies rt (baseline @ [spike 30]) (spike 30) = [spike_anomaly]"
proof -
  have h: "\<forall>d \<in> set (baseline @ [spike 30]).
      bandwidth d = Fin (of_int 50) \<and> activeConnections d = Fin (of_int 100) \<and>
      errorRate d = Fin (of_int 1)"
    by (simp add: baseline_def steady_def spike_def)
  have "detect_metric rt (baseline @ [spike 30]) (spike 30) Bandwidth = []"
    using h by (intro quiet_metric [OF acc, where c = 50]) simp_all
  moreover have "detect_metric rt (baseline @ [spike 30]) (spike 30) ActiveConnections = []"
    using h by (intro quiet_metric [OF acc, where c = 100]) simp_all
  moreover have "detect_metric rt (baseline @ [spike 30]) (spike 30) ErrorRate = []"
    using h by (intro quiet_metric [OF acc, where c = 1]) simp_all
  moreover have "length (baseline @ [spike 30]) = 31"
    by (simp add: baseline_def)
  ultimately show ?thesis
    by (simp add: detectAnomalies_def metrics_def spike_pps [OF acc])
qed

lemma POST_spike:
  assumes acc: "accurate rt"
  shows "POST rt \<lparr>networkDataHistory = baseline, detectedAnomalies = []\<rparr> (to_json (spike 30))
     = (\<lparr>networkDataHistory = baseline @ [spike 30], detectedAnomalies = [spike_anomaly]\<rparr>,
        Success 1)"
  unfolding POST_def parse_spike
  by (simp add: Let_def spike_detected [OF acc]) (simp add: baseline_def)

lemma feed_spike:
  assumes acc: "accurate rt"
  shows "feed rt initial_route_state (map to_json (baseline @ [spike 30])) =
     (\<lparr>networkDataHistory = baseline @ [spike 30], detectedAnomalies = [spike_anomaly]\<rparr>,
      replicate 30 (Success 0) @ [Success 1])"
  by (simp add: feed_append feed_baseline [OF acc] POST_spike [OF acc])

lemma feed_spike_parts:
  assumes acc: "accurate rt"
  shows "networkDataHistory (fst (feed rt initial_route_state
      (map to_json (baseline @ [spike 30])))) = baseline @ [spike 30]"
  "detectedAnomalies (fst (feed rt initial_route_state
      (map to_json (baseline @ [spike 30])))) = [spike_anomaly]"
  "snd (feed rt initial_route_state (map to_json (baseline @ [spike 30])))
     = replicate 30 (Success 0) @ [Success 1]"
  unfolding feed_spike [OF acc] by simp_all

subsection \<open>Monotonicity of the z-score and of the severity\<close>

lemma js_le_refl_iff: "js_le a a \<longleftrightarrow> a \<noteq> NaN"
  by (cases a) (simp_all add: js_le_def)

lemma js_lt_le_trans: "js_lt c a \<Longrightarrow> js_le a b \<Longrightarrow> js_lt c b"
  by (cases a; cases b; cases c) (auto simp: js_le_def)

lemma not_js_lt: "a \<noteq> NaN \<Longrightarrow> b \<noteq> NaN \<Longrightarrow> \<not> js_lt a b \<Longrightarrow> js_le b a"
  by (cases a; cases b) (auto simp: js_le_def)

lemma severity_of_mono:
  assumes "js_le z1 z2"
  shows "(severity_of rt z1 = Critical \<longrightarrow> severity_of rt z2 = Critical) \<and>
         (severity_of rt z1 \<noteq> Info \<longrightarrow> severity_of rt z2 \<noteq> Info)"
  using js_lt_le_trans [OF _ assms]
  by (auto simp: severity_of_def js_gt_def split: if_splits)

lemma monotone_rnd:
  assumes "monotone_rounding rt"
  shows "rnd rt x \<noteq> NaN" "rnd rt 0 = Fin 0" "x \<le> y \<Longrightarrow> js_le (rnd rt x) (rnd rt y)"
    "Math_abs (rnd rt x) = rnd rt \<bar>x\<bar>"
proof -
  have mono: "js_le (rnd rt x) (rnd rt y)" if "x \<le> y" for x y
    using assms that by (simp add: monotone_rounding_def)
  have neg: "rnd rt (- x) = js_neg (rnd rt x)" for x
    using assms by (simp add: monotone_rounding_def)
  show nan: "rnd rt x \<noteq> NaN" for x
    using mono [of x x] by (simp add: js_le_refl_iff)
  show zero: "rnd rt 0 = Fin 0"
    using neg [of 0] nan [of 0] by (cases "rnd rt 0") simp_all
  show "x \<le> y \<Longrightarrow> js_le (rnd rt x) (rnd rt y)" by (rule mono)
  have pos: "Math_abs (rnd rt x) = rnd rt x" if "0 \<le> x" for x
    using mono [OF that] by (cases "rnd rt x") (auto simp: zero js_le_def)
  show "Math_abs (rnd rt x) = rnd rt \<bar>x\<bar>"
  proof (cases "0 \<le> x")
    case True
    then show ?thesis by (simp add: pos)
  next
    case False
    then have "Math_abs (rnd rt (- x)) = rnd rt (- x)" by (intro pos) simp
    moreover have "Math_abs (js_neg n) = Math_abs n" for n by (cases n) simp_all
    ultimately show ?thesis using False by (simp add: neg)
  qed
qed

lemma zScore_rnd:
  assumes "monotone_rounding rt" "0 < s"
  shows "zScore rt (Fin v) (Fin m) (Fin s) = js_div rt (rnd rt \<bar>v - m\<bar>) (Fin s)"
proof -
  have "Math_abs (js_div rt n (Fin s)) = js_div rt (Math_abs n) (Fin s)" for n
    using assms(2) by (cases n) (simp_all add: monotone_rnd(4) [OF assms(1)])
  then show ?thesis
    by (simp add: zScore_def js_sub_def monotone_rnd(4) [OF assms(1)])
qed

lemma js_div_mono:
  assumes "monotone_rounding rt" "0 < s" "js_le a b"
  shows "js_le (js_div rt a (Fin s)) (js_div rt b (Fin s))"
proof -
  have nan: "rnd rt x \<noteq> NaN" for x by (rule monotone_rnd(1) [OF assms(1)])
  have top: "js_le n PosInfinity" if "n \<noteq> NaN" for n
    using that by (cases n) (simp_all add: js_le_def)
  have bot: "js_le NegInfinity n" if "n \<noteq> NaN" for n
    using that by (cases n) (simp_all add: js_le_def)
  show ?thesis
  proof (cases a)
    case (Fin x)
    show ?thesis
    proof (cases b)
      case (Fin y)
      with \<open>a = Fin x\<close> assms(3) have "x \<le> y" by (auto simp: js_le_def)
      then have "x / s \<le> y / s" using assms(2) by (simp add: divide_right_mono)
      from monotone_rnd(3) [OF assms(1) this] show ?thesis
        using assms(2) \<open>a = Fin x\<close> Fin by simp
    next
      case PosInfinity
      then show ?thesis using assms(2) \<open>a = Fin x\<close> by (simp add: top nan)
    next
      case NegInfinity
      then show ?thesis using assms(3) \<open>a = Fin x\<close> by (simp add: js_le_def)
    next
      case NaN
      then show ?thesis using assms(3) \<open>a = Fin x\<close> by (simp add: js_le_def)
    qed
  next
    case PosInfinity
    then show ?thesis using assms(2,3) by (cases b) (simp_all add: js_le_def)
  next
    case NegInfinity
    moreover from assms(3) have "b \<noteq> NaN" by (auto simp: js_le_def)
    then have "js_div rt b (Fin s) \<noteq> NaN" using assms(2) by (cases b) (simp_all add: nan)
    ultimately show ?thesis using assms(2) by (simp add: bot)
  next
    case NaN
    then show ?thesis using assms(3) by (simp add: js_le_def)
  qed
qed

text \<open>
  Claim C4.  For a fixed window mean and a standard deviation of at least 0.1, a new value
  at least as far from the mean gets a z-score at least as large, and its severity is not
  demoted: critical stays critical, and warning-or-above stays warning-or-above.  This
  holds in every runtime whose rounding is monotone.
\<close>

theorem zScore_monotone:
  assumes "monotone_rounding rt" and "stdDev \<ge> 0.1" and "\<bar>v1 - mean\<bar> \<le> \<bar>v2 - mean\<bar>"
  shows "js_le (zScore rt (Fin v1) (Fin mean) (Fin stdDev))
               (zScore rt (Fin v2) (Fin mean) (Fin stdDev)) \<and>
         (severity_of rt (zScore rt (Fin v1) (Fin mean) (Fin stdDev)) = Critical \<longrightarrow>
            severity_of rt (zScore rt (Fin v2) (Fin mean) (Fin stdDev)) = Critical) \<and>
         (severity_of rt (zScore rt (Fin v1) (Fin mean) (Fin stdDev)) \<noteq> Info \<longrightarrow>
            severity_of rt (zScore rt (Fin v2) (Fin mean) (Fin stdDev)) \<noteq> Info)"
proof -
  from assms(2) have pos: "0 < stdDev" by simp
  have "js_le (rnd rt \<bar>v1 - mean\<bar>) (rnd rt \<bar>v2 - mean\<bar>)"
    by (rule monotone_rnd(3) [OF assms(1,3)])
  from js_div_mono [OF assms(1) pos this]
  have le: "js_le (zScore rt (Fin v1) (Fin mean) (Fin stdDev))
                  (zScore rt (Fin v2) (Fin mean) (Fin stdDev))"
    by (simp add: zScore_rnd [OF assms(1) pos])
  from severity_of_mono [OF le] le show ?thesis by blast
qed

theorem zScore_monotone_witness:
  "monotone_rounding exact_runtime \<and> (1::real) \<ge> 0.1 \<and>
   \<bar>2003 - 500\<bar> \<le> \<bar>(2007::real) - 500\<bar> \<and>
   js_le (zScore exact_runtime (Fin 2003) (Fin 500) (Fin 1))
         (zScore exact_runtime (Fin 2007) (Fin 500) (Fin 1)) \<and>
   severity_of exact_runtime (zScore exact_runtime (Fin 2003) (Fin 500) (Fin 1)) = Critical \<and>
   severity_of exact_runtime (zScore exact_runtime (Fin 2007) (Fin 500) (Fin 1)) = Critical"
proof -
  have m: "monotone_rounding exact_runtime" by (rule exact_monotone)
  have s: "severity_of exact_runtime (zScore exact_runtime (Fin 2003) (Fin 500) (Fin 1)) = Critical"
    by (simp add: zScore_def js_sub_def severity_of_def ZSCORE_THRESHOLD_def js_gt_def
        exact_runtime_def)
  from zScore_monotone [OF m, of 1 2003 500 2007] m s show ?thesis by simp
qed

subsection \<open>What the handler emits\<close>

lemma slice_last_last: "xs \<noteq> [] \<Longrightarrow> slice_last (Suc n) xs \<noteq> [] \<and> last (slice_last (Suc n) xs) = last xs"
  by (cases xs rule: rev_cases) (simp_all add: slice_last_def)

lemma slice_last_length: "length (slice_last n xs) \<le> n"
  by (simp add: slice_last_def)

lemma POST_valid:
  assumes "NetworkDataSchema_parse body = Some d"
  shows "\<exists>h. h \<noteq> [] \<and> last h = d \<and>
             networkDataHistory (fst (POST rt st body)) = h \<and>
             h = (if length (networkDataHistory st) < 1000 then networkDataHistory st @ [d]
                  else slice_last 1000 (networkDataHistory st @ [d])) \<and>
             snd (POST rt st body) = Success (length (detectAnomalies rt h d)) \<and>
             set (detectedAnomalies (fst (POST rt st body)))
               \<subseteq> set (detectedAnomalies st) \<union> set (detectAnomalies rt h d)"
proof -
  let ?p = "networkDataHistory st @ [d]"
  let ?h = "if length ?p > 1000 then slice_last 1000 ?p else ?p"
  have ne: "?h \<noteq> [] \<and> last ?h = d"
    using slice_last_last [of ?p 999] by simp
  have sub: "set (slice_last n xs) \<subseteq> set xs" for n and xs :: "Anomaly list"
    by (simp add: slice_last_def set_drop_subset)
  have "set (detectedAnomalies (fst (POST rt st body)))
               \<subseteq> set (detectedAnomalies st) \<union> set (detectAnomalies rt ?h d)"
    using sub [of 100 "detectedAnomalies st @ detectAnomalies rt ?h d"]
    by (simp add: POST_def assms Let_def)
  moreover have "networkDataHistory (fst (POST rt st body)) = ?h"
    "snd (POST rt st body) = Success (length (detectAnomalies rt ?h d))"
    by (simp_all add: POST_def assms Let_def)
  ultimately show ?thesis using ne by (intro exI [of _ ?h]) auto
qed

lemma detectAnomalies_needs:
  assumes "a \<in> set (detectAnomalies rt history cur)"
  shows "10 \<le> length history"
    and "\<exists>m. a \<in> set (detect_metric rt history cur m)"
  using assms by (auto simp: detectAnomalies_def split: if_splits)

lemma zScore_NaN [simp]: "zScore rt v mean NaN = NaN"
  by (simp add: zScore_def)

lemma detect_metric_guard:
  assumes "detect_metric rt history cur m \<noteq> []"
  shows "stdDev_of rt (window_values history m) \<noteq> NaN"
    and "\<not> js_lt (stdDev_of rt (window_values history m)) (rnd rt 0.1)"
    and "rnd rt 0.1 \<noteq> NaN \<Longrightarrow> js_le (rnd rt 0.1) (stdDev_of rt (window_values history m))"
    and "js_gt (zScore rt (metric_of m cur) (mean_of rt (window_values history m))
               (stdDev_of rt (window_values history m))) (ZSCORE_THRESHOLD rt)"
proof -
  from assms show g: "\<not> js_lt (stdDev_of rt (window_values history m)) (rnd rt 0.1)"
    by (auto simp: detect_metric_def Let_def split: if_splits)
  from assms show z: "js_gt (zScore rt (metric_of m cur) (mean_of rt (window_values history m))
               (stdDev_of rt (window_values history m))) (ZSCORE_THRESHOLD rt)"
    by (auto simp: detect_metric_def Let_def split: if_splits)
  then show n: "stdDev_of rt (window_values history m) \<noteq> NaN"
    by (auto simp: js_gt_def)
  show "js_le (rnd rt 0.1) (stdDev_of rt (window_values history m))" if "rnd rt 0.1 \<noteq> NaN"
    using not_js_lt [OF n that g] .
qed

lemma detect_metric_fields:
  assumes "a \<in> set (detect_metric rt history cur m)"
  shows "a = \<lparr>a_timestamp = timestamp cur, a_type = type_of m,
             a_severity = severity_of rt (zScore rt (metric_of m cur)
               (mean_of rt (window_values history m)) (stdDev_of rt (window_values history m))),
             a_source = ''Anomaly Detection Engine'',
             a_description = description_of m (metric_of m cur)
               (mean_of rt (window_values history m)),
             a_metrics = \<lparr>threshold = Math_round (mean_of rt (window_values history m)),
               actualValue = metric_of m cur,
               deviation = Math_abs (Math_round (js_mul rt
                 (js_div rt (js_sub rt (metric_of m cur) (mean_of rt (window_values history m)))
                    (mean_of rt (window_values history m))) (rnd rt 100)))\<rparr>\<rparr>"
  using assms
  by (auto simp: detect_metric_def Let_def split: if_splits)

lemma feed_few:
  "length (networkDataHistory st) + length bodies < 10 \<Longrightarrow>
     detectedAnomalies (fst (feed rt st bodies)) = detectedAnomalies st \<and>
     set (snd (feed rt st bodies)) \<subseteq> {Success 0, BadRequest}"
proof (induction bodies arbitrary: st)
  case Nil
  then show ?case by simp
next
  case (Cons body bodies)
  show ?case
  proof (cases "NetworkDataSchema_parse body")
    case None
    then have "POST rt st body = (st, BadRequest)" by (simp add: POST_def)
    moreover from Cons.prems have "length (networkDataHistory st) + length bodies < 10" by simp
    from Cons.IH [OF this] have "detectedAnomalies (fst (feed rt st bodies)) = detectedAnomalies st \<and>
      set (snd (feed rt st bodies)) \<subseteq> {Success 0, BadRequest}" .
    ultimately show ?thesis by (simp add: split_def Let_def)
  next
    case (Some d)
    let ?st1 = "st\<lparr>networkDataHistory := networkDataHistory st @ [d]\<rparr>"
    from Cons.prems have "POST rt st body = (?st1, Success 0)"
      by (simp add: POST_def Some Let_def detectAnomalies_def)
    moreover have "length (networkDataHistory ?st1) + length bodies < 10"
      using Cons.prems by simp
    from Cons.IH [OF this] have "detectedAnomalies (fst (feed rt ?st1 bodies)) = detectedAnomalies st \<and>
      set (snd (feed rt ?st1 bodies)) \<subseteq> {Success 0, BadRequest}" by simp
    ultimately show ?thesis by (simp add: split_def Let_def)
  qed
qed

text \<open>
  Claim C2.  An anomaly is emitted for a metric only when the history holds at least ten
  samples and the standard deviation that the code computed for that metric's window is
  at least 0.1: it is a number, it is not below the double that the literal \<open>0.1\<close>
  denotes, and in an accurate runtime it is positive, so the division by it is guarded.
  This holds whatever the rounding of the runtime.  A valid sample is always answered with
  success, never with an error, whatever the window looks like.  Fewer than ten requests,
  from the empty state, emit no anomaly at all.
\<close>

theorem anomalies_need_history_and_spread:
  "(a \<in> set (detectAnomalies rt history cur) \<longrightarrow>
      10 \<le> length history \<and>
      (\<exists>m \<sigma>. a \<in> set (detect_metric rt history cur m) \<and> a_type a = type_of m \<and>
           \<sigma> = stdDev_of rt (window_values history m) \<and>
           \<sigma> \<noteq> NaN \<and> \<not> js_lt \<sigma> (rnd rt 0.1) \<and>
           (rnd rt 0.1 \<noteq> NaN \<longrightarrow> js_le (rnd rt 0.1) \<sigma>) \<and>
           (accurate rt \<longrightarrow> js_lt (Fin 0) \<sigma>))) \<and>
   (detect_metric rt history cur m \<noteq> [] \<longrightarrow>
      stdDev_of rt (window_values history m) \<noteq> NaN \<and>
      \<not> js_lt (stdDev_of rt (window_values history m)) (rnd rt 0.1) \<and>
      (rnd rt 0.1 \<noteq> NaN \<longrightarrow> js_le (rnd rt 0.1) (stdDev_of rt (window_values history m)))) \<and>
   (NetworkDataSchema_parse body = Some d \<longrightarrow>
      (\<exists>n. snd (POST rt st body) = Success n \<and>
           (0 < n \<longrightarrow> 10 \<le> length (networkDataHistory (fst (POST rt st body)))))) \<and>
   (length bodies < 10 \<longrightarrow>
      detectedAnomalies (fst (feed rt initial_route_state bodies)) = [] \<and>
      set (snd (feed rt initial_route_state bodies)) \<subseteq> {Success 0, BadRequest})"
proof -
  have 1: "a \<in> set (detectAnomalies rt history cur) \<longrightarrow>
      10 \<le> length history \<and>
      (\<exists>m \<sigma>. a \<in> set (detect_metric rt history cur m) \<and> a_type a = type_of m \<and>
           \<sigma> = stdDev_of rt (window_values history m) \<and>
           \<sigma> \<noteq> NaN \<and> \<not> js_lt \<sigma> (rnd rt 0.1) \<and>
           (rnd rt 0.1 \<noteq> NaN \<longrightarrow> js_le (rnd rt 0.1) \<sigma>) \<and>
           (accurate rt \<longrightarrow> js_lt (Fin 0) \<sigma>))"
  proof
    assume a: "a \<in> set (detectAnomalies rt history cur)"
    from detectAnomalies_needs(2) [OF a] obtain m
      where m: "a \<in> set (detect_metric rt history cur m)" ..
    then have ne: "detect_metric rt history cur m \<noteq> []" by auto
    define \<sigma> where "\<sigma> = stdDev_of rt (window_values history m)"
    note g = detect_metric_guard [OF ne, folded \<sigma>_def]
    from detect_metric_fields [OF m] have t: "a_type a = type_of m" by simp
    have pos: "js_lt (Fin 0) \<sigma>" if "accurate rt"
    proof -
      from rnd_tenth [OF that] obtain y where y: "rnd rt 0.1 = Fin y" "0 < y" by blast
      with g(3) have "js_le (Fin y) \<sigma>" by simp
      with y(2) show ?thesis by (cases \<sigma>) (auto simp: js_le_def)
    qed
    have "a \<in> set (detect_metric rt history cur m) \<and> a_type a = type_of m \<and>
           \<sigma> = stdDev_of rt (window_values history m) \<and>
           \<sigma> \<noteq> NaN \<and> \<not> js_lt \<sigma> (rnd rt 0.1) \<and>
           (rnd rt 0.1 \<noteq> NaN \<longrightarrow> js_le (rnd rt 0.1) \<sigma>) \<and>
           (accurate rt \<longrightarrow> js_lt (Fin 0) \<sigma>)"
      using m t g(1,2,3) pos by (simp add: \<sigma>_def)
    with detectAnomalies_needs(1) [OF a]
    show "10 \<le> length history \<and>
      (\<exists>m \<sigma>. a \<in> set (detect_metric rt history cur m) \<and> a_type a = type_of m \<and>
           \<sigma> = stdDev_of rt (window_values history m) \<and>
           \<sigma> \<noteq> NaN \<and> \<not> js_lt \<sigma> (rnd rt 0.1) \<and>
           (rnd rt 0.1 \<noteq> NaN \<longrightarrow> js_le (rnd rt 0.1) \<sigma>) \<and>
           (accurate rt \<longrightarrow> js_lt (Fin 0) \<sigma>))" by blast
  qed
  have 2: "detect_metric rt history cur m \<noteq> [] \<longrightarrow>
      stdDev_of rt (window_values history m) \<noteq> NaN \<and>
      \<not> js_lt (stdDev_of rt (window_values history m)) (rnd rt 0.1) \<and>
      (rnd rt 0.1 \<noteq> NaN \<longrightarrow> js_le (rnd rt 0.1) (stdDev_of rt (window_values history m)))"
    using detect_metric_guard(1,2,3) [of rt history cur m] by blast
  have 3: "NetworkDataSchema_parse body = Some d \<longrightarrow>
      (\<exists>n. snd (POST rt st body) = Success n \<and>
           (0 < n \<longrightarrow> 10 \<le> length (networkDataHistory (fst (POST rt st body)))))"
  proof
    assume p: "NetworkDataSchema_parse body = Some d"
    from POST_valid [OF p, of rt st] obtain h where
      h: "networkDataHistory (fst (POST rt st body)) = h"
         "snd (POST rt st body) = Success (length (detectAnomalies rt h d))" by blast
    have "0 < length (detectAnomalies rt h d) \<longrightarrow> 10 \<le> length h"
      by (auto simp: detectAnomalies_def)
    with h show "\<exists>n. snd (POST rt st body) = Success n \<and>
           (0 < n \<longrightarrow> 10 \<le> length (networkDataHistory (fst (POST rt st body))))" by simp
  qed
  have 4: "length bodies < 10 \<longrightarrow>
      detectedAnomalies (fst (feed rt initial_route_state bodies)) = [] \<and>
      set (snd (feed rt initial_route_state bodies)) \<subseteq> {Success 0, BadRequest}"
    using feed_few [of initial_route_state bodies rt] by (simp add: initial_route_state_def)
  from 1 2 3 4 show ?thesis by blast
qed

theorem anomalies_need_history_and_spread_witness:
  "spike_anomaly \<in> set (detectAnomalies exact_runtime (baseline @ [spike 30]) (spike 30)) \<and>
   10 \<le> length (baseline @ [spike 30]) \<and>
   detect_metric exact_runtime (baseline @ [spike 30]) (spike 30) PacketsPerSecond \<noteq> [] \<and>
   rnd exact_runtime 0.1 \<noteq> NaN \<and>
   js_le (rnd exact_runtime 0.1)
     (stdDev_of exact_runtime (window_values (baseline @ [spike 30]) PacketsPerSecond)) \<and>
   accurate exact_runtime \<and>
   (\<exists>m. a_type spike_anomaly = type_of m \<and>
        js_lt (Fin 0) (stdDev_of exact_runtime (window_values (baseline @ [spike 30]) m))) \<and>
   NetworkDataSchema_parse (to_json (spike 30)) = Some (spike 30) \<and>
   snd (POST exact_runtime \<lparr>networkDataHistory = baseline, detectedAnomalies = []\<rparr>
          (to_json (spike 30))) = Success 1 \<and>
   10 \<le> length (networkDataHistory
     (fst (POST exact_runtime \<lparr>networkDataHistory = baseline, detectedAnomalies = []\<rparr>
             (to_json (spike 30))))) \<and>
   length (map to_json (take 9 baseline)) < 10 \<and>
   detectedAnomalies (fst (feed exact_runtime initial_route_state
     (map to_json (take 9 baseline)))) = []"
proof -
  have acc: "accurate exact_runtime" by (rule exact_accurate)
  have h0: "rnd exact_runtime 0.1 \<noteq> NaN" by (simp add: exact_runtime_def)
  have h1: "spike_anomaly \<in> set (detectAnomalies exact_runtime (baseline @ [spike 30]) (spike 30))"
    by (simp add: spike_detected [OF acc])
  have h2: "detect_metric exact_runtime (baseline @ [spike 30]) (spike 30) PacketsPerSecond \<noteq> []"
    by (simp add: spike_pps [OF acc])
  have h3: "NetworkDataSchema_parse (to_json (spike 30)) = Some (spike 30)"
    by (rule parse_spike)
  have h4: "snd (POST exact_runtime \<lparr>networkDataHistory = baseline, detectedAnomalies = []\<rparr>
      (to_json (spike 30))) = Success 1"
    by (simp add: POST_spike [OF acc])
  have h5: "length (map to_json (take 9 baseline)) < 10"
    by (simp add: baseline_def)
  note T = anomalies_need_history_and_spread [of spike_anomaly exact_runtime
      "baseline @ [spike 30]" "spike 30"
      PacketsPerSecond "to_json (spike 30)" "spike 30"
      "\<lparr>networkDataHistory = baseline, detectedAnomalies = []\<rparr>"
      "map to_json (take 9 baseline)"]
  from T h1 have c1: "10 \<le> length (baseline @ [spike 30])" by blast
  from T h1 acc have c1': "\<exists>m. a_type spike_anomaly = type_of m \<and>
        js_lt (Fin 0) (stdDev_of exact_runtime (window_values (baseline @ [spike 30]) m))"
    by blast
  from T h2 h0 have c2: "js_le (rnd exact_runtime 0.1)
     (stdDev_of exact_runtime (window_values (baseline @ [spike 30]) PacketsPerSecond))"
    by blast
  from T h3 h4 have c3: "10 \<le> length (networkDataHistory
     (fst (POST exact_runtime \<lparr>networkDataHistory = baseline, detectedAnomalies = []\<rparr>
        (to_json (spike 30)))))"
    by auto
  from T h5 have c4:
    "detectedAnomalies (fst (feed exact_runtime initial_route_state
       (map to_json (take 9 baseline)))) = []"
    by blast
  from h0 h1 h2 h3 h4 h5 c1 c1' c2 c3 c4 acc show ?thesis by blast
qed

lemma accurate_thresholds:
  assumes "accurate rt"
  shows "ZSCORE_THRESHOLD rt = Fin 3"
    and "js_mul rt (ZSCORE_THRESHOLD rt) (rnd rt 2) = Fin 6"
    and "js_mul rt (ZSCORE_THRESHOLD rt) (rnd rt 1.5) = Fin 4.5"
proof -
  note n = rnd_numeral [OF assms]
  have h: "rnd rt (3 / 2) = Fin (3 / 2)" "rnd rt (9 / 2) = Fin (9 / 2)"
    using rnd_half [OF assms, of 3] rnd_half [OF assms, of 9] by simp_all
  show "ZSCORE_THRESHOLD rt = Fin 3" by (simp add: ZSCORE_THRESHOLD_def n)
  then show "js_mul rt (ZSCORE_THRESHOLD rt) (rnd rt 2) = Fin 6"
    "js_mul rt (ZSCORE_THRESHOLD rt) (rnd rt 1.5) = Fin 4.5"
    by (simp_all add: n h)
qed

lemma deviation_zero_mean:
  assumes acc: "accurate rt"
    and guard: "\<not> js_lt \<sigma> (rnd rt 0.1)"
    and z: "js_gt (Math_abs (js_div rt x \<sigma>)) (ZSCORE_THRESHOLD rt)"
  shows "Math_abs (Math_round (js_mul rt (js_div rt x (Fin 0)) (rnd rt 100))) = PosInfinity"
proof -
  note n = rnd_numeral [OF acc]
  from rnd_tenth [OF acc] obtain y where y: "rnd rt 0.1 = Fin y" "0 < y" by blast
  from z have z3: "js_lt (Fin 3) (Math_abs (js_div rt x \<sigma>))"
    by (simp add: js_gt_def accurate_thresholds(1) [OF acc])
  have "x \<noteq> Fin 0"
  proof
    assume "x = Fin 0"
    with guard y have "js_div rt x \<sigma> = Fin 0 \<or> js_div rt x \<sigma> = NaN"
      by (cases \<sigma>) (auto simp: n)
    with z3 show False by auto
  qed
  moreover from z3 have "x \<noteq> NaN" by auto
  ultimately show ?thesis by (cases x) (auto simp: n)
qed

text \<open>
  Claim C3.  Every anomaly the detector emits belongs to one metric \<open>m\<close>, whose type it
  carries.  With \<open>\<mu>\<close> and \<open>\<sigma>\<close> the mean and standard deviation that the code computed
  for that metric's window, \<open>v\<close> the new value and \<open>z\<close> the computed \<open>\<bar>(v - \<mu>) / \<sigma>\<bar>\<close>:
  \<open>\<sigma>\<close> is not below 0.1 and \<open>z\<close> exceeds the threshold; the severity is critical if \<open>z\<close>
  exceeds twice the threshold, warning if it exceeds 1.5 times the threshold, else info;
  the threshold field is \<open>\<mu>\<close> rounded, the actual value is \<open>v\<close>, the deviation is the
  absolute value of the rounded \<open>(v - \<mu>) / \<mu> \<times> 100\<close> (which is \<open>Infinity\<close> when \<open>\<mu>\<close> is
  zero); the timestamp is the sample's and the source is the detection engine.  Every
  operation is the runtime's, on its doubles.  In an accurate runtime the three bounds are
  3, 6 and 4.5.
\<close>

theorem anomaly_fields:
  assumes "a \<in> set (detectAnomalies rt history cur)"
  shows "(\<exists>m \<mu> \<sigma> v z.
           \<mu> = mean_of rt (window_values history m) \<and>
           \<sigma> = stdDev_of rt (window_values history m) \<and>
           v = metric_of m cur \<and> z = Math_abs (js_div rt (js_sub rt v \<mu>) \<sigma>) \<and>
           a_type a = type_of m \<and>
           \<sigma> \<noteq> NaN \<and> \<not> js_lt \<sigma> (rnd rt 0.1) \<and> js_gt z (ZSCORE_THRESHOLD rt) \<and>
           a_severity a =
             (if js_gt z (js_mul rt (ZSCORE_THRESHOLD rt) (rnd rt 2)) then Critical
              else if js_gt z (js_mul rt (ZSCORE_THRESHOLD rt) (rnd rt 1.5)) then Warning
              else Info) \<and>
           threshold (a_metrics a) = Math_round \<mu> \<and>
           actualValue (a_metrics a) = v \<and>
           deviation (a_metrics a) =
             Math_abs (Math_round (js_mul rt (js_div rt (js_sub rt v \<mu>) \<mu>) (rnd rt 100))) \<and>
           deviation (a_metrics a) =
             (if accurate rt \<and> \<mu> = Fin 0 then PosInfinity
              else Math_abs (Math_round (js_mul rt (js_div rt (js_sub rt v \<mu>) \<mu>) (rnd rt 100)))) \<and>
           a_description a = description_of m v \<mu> \<and>
           a_timestamp a = timestamp cur \<and>
           a_source a = ''Anomaly Detection Engine'') \<and>
         (accurate rt \<longrightarrow>
            ZSCORE_THRESHOLD rt = Fin 3 \<and>
            js_mul rt (ZSCORE_THRESHOLD rt) (rnd rt 2) = Fin 6 \<and>
            js_mul rt (ZSCORE_THRESHOLD rt) (rnd rt 1.5) = Fin 4.5)"
proof -
  from detectAnomalies_needs(2) [OF assms] obtain m
    where m: "a \<in> set (detect_metric rt history cur m)" ..
  then have ne: "detect_metric rt history cur m \<noteq> []" by auto
  define \<mu> where "\<mu> = mean_of rt (window_values history m)"
  define \<sigma> where "\<sigma> = stdDev_of rt (window_values history m)"
  define v where "v = metric_of m cur"
  define z where "z = Math_abs (js_div rt (js_sub rt v \<mu>) \<sigma>)"
  have zS: "zScore rt v \<mu> \<sigma> = z" by (simp add: z_def zScore_def)
  note g = detect_metric_guard [OF ne, folded \<mu>_def \<sigma>_def v_def, unfolded zS]
  note f = detect_metric_fields [OF m, folded \<mu>_def \<sigma>_def v_def, unfolded zS]
  have sev: "a_severity a =
             (if js_gt z (js_mul rt (ZSCORE_THRESHOLD rt) (rnd rt 2)) then Critical
              else if js_gt z (js_mul rt (ZSCORE_THRESHOLD rt) (rnd rt 1.5)) then Warning
              else Info)"
    by (subst f) (simp add: severity_of_def)
  have rest: "a_type a = type_of m" "threshold (a_metrics a) = Math_round \<mu>"
    "actualValue (a_metrics a) = v"
    "a_description a = description_of m v \<mu>"
    "a_timestamp a = timestamp cur" "a_source a = ''Anomaly Detection Engine''"
    by (subst f, simp)+
  have dev: "deviation (a_metrics a) =
      Math_abs (Math_round (js_mul rt (js_div rt (js_sub rt v \<mu>) \<mu>) (rnd rt 100)))"
    by (subst f) simp
  have dev2: "deviation (a_metrics a) =
             (if accurate rt \<and> \<mu> = Fin 0 then PosInfinity
              else Math_abs (Math_round (js_mul rt (js_div rt (js_sub rt v \<mu>) \<mu>) (rnd rt 100))))"
  proof (cases "accurate rt \<and> \<mu> = Fin 0")
    case True
    then have acc: "accurate rt" and mu: "\<mu> = Fin 0" by simp_all
    from g(4) have "js_gt (Math_abs (js_div rt (js_sub rt v \<mu>) \<sigma>)) (ZSCORE_THRESHOLD rt)"
      by (simp add: z_def)
    from deviation_zero_mean [OF acc g(2) this]
    have "Math_abs (Math_round (js_mul rt (js_div rt (js_sub rt v \<mu>) (Fin 0)) (rnd rt 100)))
        = PosInfinity" .
    with dev mu have "deviation (a_metrics a) = PosInfinity" by simp
    then show ?thesis unfolding if_P [OF True] .
  next
    case False
    show ?thesis unfolding if_not_P [OF False] by (rule dev)
  qed
  have "\<mu> = mean_of rt (window_values history m) \<and>
           \<sigma> = stdDev_of rt (window_values history m) \<and>
           v = metric_of m cur \<and> z = Math_abs (js_div rt (js_sub rt v \<mu>) \<sigma>) \<and>
           a_type a = type_of m \<and>
           \<sigma> \<noteq> NaN \<and> \<not> js_lt \<sigma> (rnd rt 0.1) \<and> js_gt z (ZSCORE_THRESHOLD rt) \<and>
           a_severity a =
             (if js_gt z (js_mul rt (ZSCORE_THRESHOLD rt) (rnd rt 2)) then Critical
              else if js_gt z (js_mul rt (ZSCORE_THRESHOLD rt) (rnd rt 1.5)) then Warning
              else Info) \<and>
           threshold (a_metrics a) = Math_round \<mu> \<and>
           actualValue (a_metrics a) = v \<and>
           deviation (a_metrics a) =
             Math_abs (Math_round (js_mul rt (js_div rt (js_sub rt v \<mu>) \<mu>) (rnd rt 100))) \<and>
           deviation (a_metrics a) =
             (if accurate rt \<and> \<mu> = Fin 0 then PosInfinity
              else Math_abs (Math_round (js_mul rt (js_div rt (js_sub rt v \<mu>) \<mu>) (rnd rt 100)))) \<and>
           a_description a = description_of m v \<mu> \<and>
           a_timestamp a = timestamp cur \<and>
           a_source a = ''Anomaly Detection Engine''"
    by (intro conjI \<mu>_def \<sigma>_def v_def z_def g(1,2,4) sev rest dev dev2)
  then have "\<exists>m \<mu> \<sigma> v z.
           \<mu> = mean_of rt (window_values history m) \<and>
           \<sigma> = stdDev_of rt (window_values history m) \<and>
           v = metric_of m cur \<and> z = Math_abs (js_div rt (js_sub rt v \<mu>) \<sigma>) \<and>
           a_type a = type_of m \<and>
           \<sigma> \<noteq> NaN \<and> \<not> js_lt \<sigma> (rnd rt 0.1) \<and> js_gt z (ZSCORE_THRESHOLD rt) \<and>
           a_severity a =
             (if js_gt z (js_mul rt (ZSCORE_THRESHOLD rt) (rnd rt 2)) then Critical
              else if js_gt z (js_mul rt (ZSCORE_THRESHOLD rt) (rnd rt 1.5)) then Warning
              else Info) \<and>
           threshold (a_metrics a) = Math_round \<mu> \<and>
           actualValue (a_metrics a) = v \<and>
           deviation (a_metrics a) =
             Math_abs (Math_round (js_mul rt (js_div rt (js_sub rt v \<mu>) \<mu>) (rnd rt 100))) \<and>
           deviation (a_metrics a) =
             (if accurate rt \<and> \<mu> = Fin 0 then PosInfinity
              else Math_abs (Math_round (js_mul rt (js_div rt (js_sub rt v \<mu>) \<mu>) (rnd rt 100)))) \<and>
           a_description a = description_of m v \<mu> \<and>
           a_timestamp a = timestamp cur \<and>
           a_source a = ''Anomaly Detection Engine''"
    by blast
  moreover have "accurate rt \<longrightarrow>
            ZSCORE_THRESHOLD rt = Fin 3 \<and>
            js_mul rt (ZSCORE_THRESHOLD rt) (rnd rt 2) = Fin 6 \<and>
            js_mul rt (ZSCORE_THRESHOLD rt) (rnd rt 1.5) = Fin 4.5"
    using accurate_thresholds by blast
  ultimately show ?thesis by (rule conjI)
qed

theorem anomaly_fields_witness:
  "spike_anomaly \<in> set (detectAnomalies exact_runtime (baseline @ [spike 30]) (spike 30)) \<and>
   accurate exact_runtime \<and>
   (\<exists>m \<mu> \<sigma> v z.
           \<mu> = mean_of exact_runtime (window_values (baseline @ [spike 30]) m) \<and>
           \<sigma> = stdDev_of exact_runtime (window_values (baseline @ [spike 30]) m) \<and>
           v = metric_of m (spike 30) \<and>
           z = Math_abs (js_div exact_runtime (js_sub exact_runtime v \<mu>) \<sigma>) \<and>
           a_type spike_anomaly = type_of m \<and>
           \<sigma> \<noteq> NaN \<and> \<not> js_lt \<sigma> (rnd exact_runtime 0.1) \<and>
           js_gt z (ZSCORE_THRESHOLD exact_runtime) \<and>
           a_severity spike_anomaly =
             (if js_gt z (js_mul exact_runtime (ZSCORE_THRESHOLD exact_runtime)
                   (rnd exact_runtime 2)) then Critical
              else if js_gt z (js_mul exact_runtime (ZSCORE_THRESHOLD exact_runtime)
                   (rnd exact_runtime 1.5)) then Warning
              else Info) \<and>
           threshold (a_metrics spike_anomaly) = Math_round \<mu> \<and>
           actualValue (a_metrics spike_anomaly) = v \<and>
           deviation (a_metrics spike_anomaly) =
             Math_abs (Math_round (js_mul exact_runtime
               (js_div exact_runtime (js_sub exact_runtime v \<mu>) \<mu>) (rnd exact_runtime 100))) \<and>
           deviation (a_metrics spike_anomaly) =
             (if accurate exact_runtime \<and> \<mu> = Fin 0 then PosInfinity
              else Math_abs (Math_round (js_mul exact_runtime
               (js_div exact_runtime (js_sub exact_runtime v \<mu>) \<mu>) (rnd exact_runtime 100)))) \<and>
           a_description spike_anomaly = description_of m v \<mu> \<and>
           a_timestamp spike_anomaly = timestamp (spike 30) \<and>
           a_source spike_anomaly = ''Anomaly Detection Engine'') \<and>
   ZSCORE_THRESHOLD exact_runtime = Fin 3 \<and>
   js_mul exact_runtime (ZSCORE_THRESHOLD exact_runtime) (rnd exact_runtime 2) = Fin 6 \<and>
   js_mul exact_runtime (ZSCORE_THRESHOLD exact_runtime) (rnd exact_runtime 1.5) = Fin 4.5"
proof -
  have acc: "accurate exact_runtime" by (rule exact_accurate)
  have h: "spike_anomaly \<in> set (detectAnomalies exact_runtime (baseline @ [spike 30]) (spike 30))"
    by (simp add: spike_detected [OF acc])
  note T = anomaly_fields [OF h]
  from T acc have c: "ZSCORE_THRESHOLD exact_runtime = Fin 3 \<and>
     js_mul exact_runtime (ZSCORE_THRESHOLD exact_runtime) (rnd exact_runtime 2) = Fin 6 \<and>
     js_mul exact_runtime (ZSCORE_THRESHOLD exact_runtime) (rnd exact_runtime 1.5) = Fin 4.5"
    by blast
  show ?thesis
    by (intro conjI h acc T [THEN conjunct1] c [THEN conjunct1]
        c [THEN conjunct2, THEN conjunct1] c [THEN conjunct2, THEN conjunct2])
qed

subsection \<open>The window holds the new sample\<close>

text \<open>
  Claim C1.  The detector does compute, per metric, the mean and the population standard
  deviation of the last thirty entries of the history.  The claim says that this window
  precedes the new sample.  The theorem evaluates the code, in an accurate runtime, on
  thirty samples at 500 packets per second followed by one at 2000: the history the
  detector reads ends with the new sample, the window is the last 29 old values and the
  new one, and its mean is 550, where the thirty samples before the new one have the mean
  500.  The emitted threshold shows it: 550.
\<close>

theorem window_holds_new_sample:
  assumes "accurate rt"
  shows
  "networkDataHistory (fst (feed rt initial_route_state (map to_json (baseline @ [spike 30]))))
     = baseline @ [spike 30] \<and>
   window_values (baseline @ [spike 30]) PacketsPerSecond
     = map Fin (replicate 29 500 @ [2000]) \<and>
   mean_of rt (window_values (baseline @ [spike 30]) PacketsPerSecond) = Fin 550 \<and>
   map (metric_of PacketsPerSecond) (slice_last 30 baseline) = map Fin (replicate 30 500) \<and>
   mean_of rt (map (metric_of PacketsPerSecond) (slice_last 30 baseline)) = Fin 500 \<and>
   map (\<lambda>a. threshold (a_metrics a))
     (detectedAnomalies (fst (feed rt initial_route_state (map to_json (baseline @ [spike 30])))))
     = [Fin 550]"
proof -
  have w: "window_values (baseline @ [spike 30]) PacketsPerSecond
      = map Fin (replicate 29 500 @ [2000])"
    unfolding window_spike by (simp add: steady_def spike_def)
  have p: "map (metric_of PacketsPerSecond) (slice_last 30 baseline) = map Fin (replicate 30 500)"
    by (simp add: slice_last_def baseline_def steady_def map_replicate_const o_def)
  have "mean_of rt (map (\<lambda>k. Fin (of_int k)) (replicate 30 500))
      = js_div rt (Fin (of_int (sum_list (replicate 30 500))))
          (Fin (real (length (replicate 30 (500::int)))))"
    by (intro mean_int [OF assms]) (simp_all add: sum_list_replicate)
  also have "\<dots> = rnd rt 500" by (simp add: sum_list_replicate)
  also have "\<dots> = Fin 500" by (intro rnd_numeral(3) [OF assms]) simp
  finally have m: "mean_of rt (map (metric_of PacketsPerSecond) (slice_last 30 baseline)) = Fin 500"
    unfolding p by simp
  have t: "map (\<lambda>a. threshold (a_metrics a))
     (detectedAnomalies (fst (feed rt initial_route_state (map to_json (baseline @ [spike 30])))))
     = [Fin 550]"
    unfolding feed_spike_parts [OF assms] by (simp add: spike_anomaly_def)
  show ?thesis
    by (intro conjI feed_spike_parts(1) [OF assms] w spike_mean [OF assms] p m t)
qed

theorem window_holds_new_sample_witness:
  "accurate exact_runtime \<and>
   networkDataHistory (fst (feed exact_runtime initial_route_state
     (map to_json (baseline @ [spike 30])))) = baseline @ [spike 30] \<and>
   window_values (baseline @ [spike 30]) PacketsPerSecond
     = map Fin (replicate 29 500 @ [2000]) \<and>
   mean_of exact_runtime (window_values (baseline @ [spike 30]) PacketsPerSecond) = Fin 550 \<and>
   map (metric_of PacketsPerSecond) (slice_last 30 baseline) = map Fin (replicate 30 500) \<and>
   mean_of exact_runtime (map (metric_of PacketsPerSecond) (slice_last 30 baseline)) = Fin 500 \<and>
   map (\<lambda>a. threshold (a_metrics a))
     (detectedAnomalies (fst (feed exact_runtime initial_route_state
        (map to_json (baseline @ [spike 30]))))) = [Fin 550]"
proof -
  have acc: "accurate exact_runtime" by (rule exact_accurate)
  from window_holds_new_sample [OF acc] acc show ?thesis by (rule conjI [rotated])
qed

text \<open>
  Claim C5.  Thirty samples with 500 packets per second and the other metrics constant,
  then one sample with 2000 packets per second, from the empty state: the claim expects
  exactly one anomaly, a traffic spike of critical severity.  The code, in an accurate
  runtime, answers the first thirty with no anomaly and the last with one traffic spike,
  and its severity is warning.
\<close>

theorem spike_after_baseline_is_warning:
  assumes "accurate rt"
  shows
  "map packetsPerSecond baseline = map Fin (replicate 30 500) \<and>
   map bandwidth (baseline @ [spike 30]) = map Fin (replicate 30 50 @ [50]) \<and>
   map activeConnections (baseline @ [spike 30]) = map Fin (replicate 30 100 @ [100]) \<and>
   map errorRate (baseline @ [spike 30]) = map Fin (replicate 30 1 @ [1]) \<and>
   packetsPerSecond (spike 30) = Fin 2000 \<and>
   snd (feed rt initial_route_state (map to_json (baseline @ [spike 30])))
     = replicate 30 (Success 0) @ [Success 1] \<and>
   map (\<lambda>a. (a_type a, a_severity a))
     (detectedAnomalies (fst (feed rt initial_route_state (map to_json (baseline @ [spike 30])))))
     = [(''traffic_spike'', Warning)]"
proof -
  have v: "map packetsPerSecond baseline = map Fin (replicate 30 500)"
    "map bandwidth (baseline @ [spike 30]) = map Fin (replicate 30 50 @ [50])"
    "map activeConnections (baseline @ [spike 30]) = map Fin (replicate 30 100 @ [100])"
    "map errorRate (baseline @ [spike 30]) = map Fin (replicate 30 1 @ [1])"
    "packetsPerSecond (spike 30) = Fin 2000"
    by (simp_all add: baseline_def steady_def spike_def map_replicate_const o_def)
  have t: "map (\<lambda>a. (a_type a, a_severity a))
     (detectedAnomalies (fst (feed rt initial_route_state (map to_json (baseline @ [spike 30])))))
     = [(''traffic_spike'', Warning)]"
    unfolding feed_spike_parts [OF assms] by (simp add: spike_anomaly_def)
  show ?thesis
    by (intro conjI v feed_spike_parts(3) [OF assms] t)
qed

theorem spike_after_baseline_is_warning_witness:
  "accurate exact_runtime \<and>
   snd (feed exact_runtime initial_route_state (map to_json (baseline @ [spike 30])))
     = replicate 30 (Success 0) @ [Success 1] \<and>
   map (\<lambda>a. (a_type a, a_severity a))
     (detectedAnomalies (fst (feed exact_runtime initial_route_state
        (map to_json (baseline @ [spike 30])))))
     = [(''traffic_spike'', Warning)]"
proof -
  have acc: "accurate exact_runtime" by (rule exact_accurate)
  from spike_after_baseline_is_warning [OF acc] acc show ?thesis by blast
qed

subsection \<open>The critical branch\<close>

lemma sum_list_shifted_squares:
  "sum_list (map (\<lambda>x. (x - c)\<^sup>2) xs) =
     sum_list (map (\<lambda>x. x\<^sup>2) xs) - 2 * c * sum_list xs + real (length xs) * c\<^sup>2"
  for c :: real
  by (induction xs) (simp_all add: power2_eq_square algebra_simps)

lemma sum_list_squares_nonneg: "0 \<le> sum_list (map (\<lambda>x. (x - c)\<^sup>2) xs)" for c :: real
  by (induction xs) simp_all

lemma square_sum_le: "(sum_list xs)\<^sup>2 \<le> real (length xs) * sum_list (map (\<lambda>x. x\<^sup>2) xs)"
  for xs :: "real list"
proof (cases xs)
  case Nil
  then show ?thesis by simp
next
  case (Cons a as)
  define k where "k = real (length xs)"
  define s where "s = sum_list xs"
  define q where "q = sum_list (map (\<lambda>x. x\<^sup>2) xs)"
  have k: "0 < k" using Cons by (simp add: k_def)
  have "0 \<le> q - 2 * (s / k) * s + k * (s / k)\<^sup>2"
    using sum_list_squares_nonneg [of "s / k" xs]
    by (simp add: sum_list_shifted_squares k_def s_def q_def)
  also have "k * (s / k)\<^sup>2 = s\<^sup>2 / k"
    using k by (simp add: power2_eq_square)
  also have "2 * (s / k) * s = 2 * (s\<^sup>2 / k)"
    by (simp add: power2_eq_square)
  finally have "s\<^sup>2 / k \<le> q" by simp
  then have "s\<^sup>2 \<le> k * q" using k by (simp add: pos_divide_le_eq mult.commute)
  then show ?thesis by (simp add: k_def s_def q_def)
qed

text \<open>A member of a sample is at most \<open>sqrt (n - 1)\<close> population deviations from the mean.\<close>

lemma last_deviation_bound:
  fixes ys :: "real list" and v :: real
  defines "vals \<equiv> ys @ [v]"
  defines "\<mu> \<equiv> sum_list vals / real (length vals)"
  shows "real (length vals) * (v - \<mu>)\<^sup>2
           \<le> real (length ys) * sum_list (map (\<lambda>x. (x - \<mu>)\<^sup>2) vals)"
proof -
  let ?n = "real (length vals)"
  have n: "?n = real (length ys) + 1" by (simp add: vals_def)
  have "\<mu> * ?n = sum_list vals"
    by (simp add: \<mu>_def vals_def)
  then have "sum_list (map (\<lambda>x. x - \<mu>) vals) = 0"
    by (simp add: sum_list_subtractf sum_list_const_mult sum_list_replicate map_replicate_const
        mult.commute)
  then have rest: "sum_list (map (\<lambda>x. x - \<mu>) ys) = - (v - \<mu>)"
    by (simp add: vals_def)
  have "(v - \<mu>)\<^sup>2 = (sum_list (map (\<lambda>x. x - \<mu>) ys))\<^sup>2"
    unfolding rest by (rule power2_minus [symmetric])
  also have "\<dots> \<le> real (length ys) * sum_list (map (\<lambda>x. x\<^sup>2) (map (\<lambda>x. x - \<mu>) ys))"
    using square_sum_le [of "map (\<lambda>x. x - \<mu>) ys"] by simp
  finally have "(v - \<mu>)\<^sup>2 \<le> real (length ys) * sum_list (map (\<lambda>x. (x - \<mu>)\<^sup>2) ys)"
    by (simp add: o_def)
  then have "(v - \<mu>)\<^sup>2 + real (length ys) * (v - \<mu>)\<^sup>2
      \<le> real (length ys) * (sum_list (map (\<lambda>x. (x - \<mu>)\<^sup>2) ys) + (v - \<mu>)\<^sup>2)"
    by (simp add: algebra_simps)
  then show ?thesis
    by (simp add: vals_def algebra_simps)
qed

lemma window_values_last:
  assumes "history \<noteq> []" "last history = cur"
  shows "\<exists>ys. window_values history m = ys @ [metric_of m cur] \<and> length ys \<le> 29"
proof -
  define w where "w = slice_last 30 history"
  have "w \<noteq> []" "last w = cur"
    using slice_last_last [OF assms(1), of 29] assms(2) by (simp_all add: w_def)
  then obtain us where us: "w = us @ [cur]"
    by (cases w rule: rev_cases) simp_all
  have "length w \<le> 30" unfolding w_def by (rule slice_last_length)
  then have "length (map (metric_of m) us) \<le> 29" by (simp add: us)
  moreover have "window_values history m = map (metric_of m) us @ [metric_of m cur]"
    by (simp add: window_values_def w_def [symmetric] us)
  ultimately show ?thesis by blast
qed

text \<open>A window with a value that is not finite has no standard deviation.\<close>

lemma sum_NaN:
  "foldl (\<lambda>sum val. js_add rt sum (g val)) NaN xs = NaN"
  by (induction xs) simp_all

lemma sum_with_NaN:
  "x \<in> set xs \<Longrightarrow> g x = NaN \<Longrightarrow> foldl (\<lambda>sum val. js_add rt sum (g val)) a xs = NaN"
  by (induction xs arbitrary: a) (auto simp: sum_NaN)

lemma exact_add_cases:
  "js_add exact_runtime a b = Fin s \<Longrightarrow> (\<exists>r. a = Fin r) \<and> (\<exists>r. b = Fin r)"
  "js_add exact_runtime a b = PosInfinity \<Longrightarrow> a = PosInfinity \<or> b = PosInfinity"
  "js_add exact_runtime a b = NegInfinity \<Longrightarrow> a = NegInfinity \<or> b = NegInfinity"
  by (cases a; cases b; simp)+

lemma exact_sum_cases:
  "foldl (\<lambda>sum val. js_add exact_runtime sum val) a xs = Fin s \<Longrightarrow>
     (\<exists>r. a = Fin r) \<and> (\<forall>x \<in> set xs. \<exists>r. x = Fin r)"
  "foldl (\<lambda>sum val. js_add exact_runtime sum val) a xs = PosInfinity \<Longrightarrow>
     a = PosInfinity \<or> PosInfinity \<in> set xs"
  "foldl (\<lambda>sum val. js_add exact_runtime sum val) a xs = NegInfinity \<Longrightarrow>
     a = NegInfinity \<or> NegInfinity \<in> set xs"
proof (induction xs arbitrary: a)
  case Nil
  { case 1 then show ?case by simp }
  { case 2 then show ?case by simp }
  { case 3 then show ?case by simp }
next
  case (Cons x xs)
  { case 1 from Cons.IH(1) [of "js_add exact_runtime a x"] 1 show ?case
      by (auto dest: exact_add_cases(1)) }
  { case 2 from Cons.IH(2) [of "js_add exact_runtime a x"] 2 show ?case
      by (auto dest: exact_add_cases(2)) }
  { case 3 from Cons.IH(3) [of "js_add exact_runtime a x"] 3 show ?case
      by (auto dest: exact_add_cases(3)) }
qed

lemma all_Fin: "\<forall>x \<in> set xs. \<exists>r. x = Fin r \<Longrightarrow> \<exists>rs. xs = map Fin rs"
proof (induction xs)
  case Nil
  then show ?case by simp
next
  case (Cons x xs)
  then obtain r rs where "x = Fin r" "xs = map Fin rs" by auto
  then have "x # xs = map Fin (r # rs)" by simp
  then show ?case by (rule exI)
qed

lemma finite_window:
  assumes "stdDev_of exact_runtime vals \<noteq> NaN"
  shows "\<exists>rs. vals = map Fin rs"
proof (cases "vals = []")
  case True
  then show ?thesis by simp
next
  case False
  define S where "S = foldl (\<lambda>sum val. js_add exact_runtime sum val) (Fin 0) vals"
  define \<mu> where "\<mu> = mean_of exact_runtime vals"
  have n: "0 < real (length vals)" using False by simp
  have \<mu>: "\<mu> = js_div exact_runtime S (Fin (real (length vals)))"
    by (simp add: \<mu>_def mean_of_def S_def)
  have sq: "foldl (\<lambda>sum val. js_add exact_runtime sum
              (Math_pow_2 exact_runtime (js_sub exact_runtime val \<mu>))) (Fin 0) vals \<noteq> NaN"
    using assms by (auto simp: stdDev_of_def \<mu>_def)
  have no: "Math_pow_2 exact_runtime (js_sub exact_runtime x \<mu>) \<noteq> NaN" if "x \<in> set vals" for x
    using sum_with_NaN [OF that, of "\<lambda>val. Math_pow_2 exact_runtime (js_sub exact_runtime val \<mu>)"]
      sq by blast
  from False obtain x0 where x0: "x0 \<in> set vals" by (cases vals) auto
  have "\<exists>s. S = Fin s"
  proof (cases S)
    case (Fin s)
    then show ?thesis by simp
  next
    case PosInfinity
    with exact_sum_cases(2) [of "Fin 0" vals] have "PosInfinity \<in> set vals" by (simp add: S_def)
    moreover have "\<mu> = PosInfinity" using PosInfinity n by (simp add: \<mu>)
    ultimately show ?thesis using no [of PosInfinity] by (simp add: js_sub_def)
  next
    case NegInfinity
    with exact_sum_cases(3) [of "Fin 0" vals] have "NegInfinity \<in> set vals" by (simp add: S_def)
    moreover have "\<mu> = NegInfinity" using NegInfinity n by (simp add: \<mu>)
    ultimately show ?thesis using no [of NegInfinity] by (simp add: js_sub_def)
  next
    case NaN
    then have "\<mu> = NaN" by (simp add: \<mu>)
    then show ?thesis using no [OF x0] by simp
  qed
  then obtain s where "S = Fin s" ..
  with exact_sum_cases(1) [of "Fin 0" vals s] have "\<forall>x \<in> set vals. \<exists>r. x = Fin r"
    by (simp add: S_def)
  then show ?thesis by (rule all_Fin)
qed

lemma zScore_below_critical:
  assumes h: "history \<noteq> []" "last history = cur"
    and sn: "stdDev_of exact_runtime (window_values history m) \<noteq> NaN"
    and sd: "\<not> js_lt (stdDev_of exact_runtime (window_values history m)) (Fin 0.1)"
  shows "js_lt (zScore exact_runtime (metric_of m cur)
           (mean_of exact_runtime (window_values history m))
           (stdDev_of exact_runtime (window_values history m))) (Fin 6)"
proof -
  from window_values_last [OF h, of m] obtain ws
    where w: "window_values history m = ws @ [metric_of m cur]" and len: "length ws \<le> 29"
    by blast
  from finite_window [OF sn] obtain rs where rs: "window_values history m = map Fin rs" ..
  with w have "rs \<noteq> []" by auto
  then obtain ys v where r: "rs = ys @ [v]" by (cases rs rule: rev_cases) auto
  with w rs have cur: "metric_of m cur = Fin v" and "ws = map Fin ys" by auto
  with len have len: "length ys \<le> 29" by simp
  define \<mu> where "\<mu> = sum_list (ys @ [v]) / real (length (ys @ [v]))"
  define S where "S = sum_list (map (\<lambda>x. (x - \<mu>)\<^sup>2) (ys @ [v]))"
  define n where "n = real (length (ys @ [v]))"
  define \<sigma> where "\<sigma> = sqrt (S / n)"
  have n: "0 < n" "n \<le> 30" using len by (simp_all add: n_def)
  have ne: "ys @ [v] \<noteq> []" by simp
  have mean: "mean_of exact_runtime (window_values history m) = Fin \<mu>"
    unfolding rs r exact_mean [OF ne] \<mu>_def ..
  have dev: "stdDev_of exact_runtime (window_values history m) = Fin \<sigma>"
    unfolding rs r exact_stdDev [OF ne] \<sigma>_def S_def \<mu>_def n_def ..
  have "0 \<le> S" unfolding S_def by (rule sum_list_squares_nonneg)
  then have "0 \<le> \<sigma>" using n by (simp add: \<sigma>_def)
  with sd have \<sigma>pos: "0 < \<sigma>" by (simp add: dev)
  then have Spos: "0 < S / n" by (simp add: \<sigma>_def)
  have "n * (v - \<mu>)\<^sup>2 \<le> real (length ys) * S"
    using last_deviation_bound [of ys v] by (simp add: n_def \<mu>_def S_def)
  also have "\<dots> \<le> 29 * S"
    using len Spos n by (intro mult_right_mono) (simp_all add: zero_less_divide_iff)
  finally have "(v - \<mu>)\<^sup>2 \<le> 29 * (S / n)" using n by (simp add: pos_le_divide_eq mult.commute)
  also have "\<dots> < 36 * (S / n)" using Spos by simp
  also have "\<dots> = (6 * \<sigma>)\<^sup>2" using Spos by (simp add: \<sigma>_def power_mult_distrib)
  finally have sq: "\<bar>v - \<mu>\<bar>\<^sup>2 < (6 * \<sigma>)\<^sup>2" by simp
  have "\<bar>v - \<mu>\<bar> < 6 * \<sigma>"
    by (rule power2_less_imp_less [OF sq]) (use \<sigma>pos in simp)
  then have "\<bar>(v - \<mu>) / \<sigma>\<bar> < 6"
    using \<sigma>pos by (simp add: pos_divide_less_eq)
  then show ?thesis
    unfolding mean dev cur using \<sigma>pos by (simp add: exact_zScore)
qed

text \<open>
  The handler pushes the sample before it runs the detector, so the window always ends
  with the sample it is judged against.  A value is less than six population deviations
  from the mean of at most thirty values it belongs to: computed exactly, no anomaly of
  the handler is ever critical.
\<close>

lemma critical_unreachable:
  assumes "history \<noteq> []" "last history = cur"
    "a \<in> set (detectAnomalies exact_runtime history cur)"
  shows "a_severity a \<noteq> Critical"
proof -
  from detectAnomalies_needs(2) [OF assms(3)] obtain m
    where a: "a \<in> set (detect_metric exact_runtime history cur m)" ..
  then have ne: "detect_metric exact_runtime history cur m \<noteq> []" by auto
  note g = detect_metric_guard [OF ne]
  from g(2) have sd: "\<not> js_lt (stdDev_of exact_runtime (window_values history m)) (Fin 0.1)"
    by simp
  from detect_metric_fields [OF a]
  have "a_severity a = severity_of exact_runtime (zScore exact_runtime (metric_of m cur)
      (mean_of exact_runtime (window_values history m))
      (stdDev_of exact_runtime (window_values history m)))"
    by simp
  moreover have "\<not> js_lt (Fin 6) z" if "js_lt z (Fin 6)" for z
    using that by (cases z) simp_all
  ultimately show ?thesis
    using zScore_below_critical [OF assms(1,2) g(1) sd]
    by (simp add: severity_of_def ZSCORE_THRESHOLD_def js_gt_def)
qed

lemma POST_never_critical:
  assumes "NetworkDataSchema_parse body = Some d"
    and "a \<in> set (detectedAnomalies (fst (POST exact_runtime st body)))"
  shows "a \<in> set (detectedAnomalies st) \<or> a_severity a \<noteq> Critical"
proof -
  from POST_valid [OF assms(1), of exact_runtime st] obtain h where
    h: "h \<noteq> []" "last h = d"
    and sub: "set (detectedAnomalies (fst (POST exact_runtime st body)))
               \<subseteq> set (detectedAnomalies st) \<union> set (detectAnomalies exact_runtime h d)"
    by blast
  from sub assms(2) critical_unreachable [OF h] show ?thesis by blast
qed

lemma feed_never_critical:
  assumes "\<forall>a \<in> set (detectedAnomalies st). a_severity a \<noteq> Critical"
  shows "\<forall>a \<in> set (detectedAnomalies (fst (feed exact_runtime st bodies))).
           a_severity a \<noteq> Critical"
  using assms
proof (induction bodies arbitrary: st)
  case Nil
  then show ?case by simp
next
  case (Cons body bodies)
  have "\<forall>a \<in> set (detectedAnomalies (fst (POST exact_runtime st body))). a_severity a \<noteq> Critical"
  proof (cases "NetworkDataSchema_parse body")
    case None
    then show ?thesis using Cons.prems by (simp add: POST_def)
  next
    case (Some d)
    then show ?thesis using Cons.prems POST_never_critical by blast
  qed
  from Cons.IH [OF this] show ?case by (simp add: split_def Let_def)
qed

section \<open>Properties of the data manager\<close>

subsection \<open>Bounded pushes\<close>


lemma push_bounded_length: "length h \<le> n \<Longrightarrow> length (push_bounded n h x) \<le> n"
  by (auto simp: push_bounded_def Let_def)

lemma push_bounded_slice: "length h \<le> n \<Longrightarrow> push_bounded n h x = slice_last n (h @ [x])"
  by (cases h) (auto simp: push_bounded_def slice_last_def Let_def Suc_diff_le)

lemma slice_last_append: "slice_last n (slice_last n a @ b) = slice_last n (a @ b)"
proof (cases "length a \<le> n")
  case True
  then show ?thesis by (simp add: slice_last_def)
next
  case False
  then have "length a + length b - (length a - n + n) + (length a - n) = length a + length b - n"
    by arith
  then show ?thesis by (simp add: slice_last_def)
qed

lemma fold_push_bounded:
  "length h \<le> n \<Longrightarrow> fold (\<lambda>x h'. push_bounded n h' x) xs h = slice_last n (h @ xs)"
proof (induction xs arbitrary: h)
  case Nil
  then show ?case by (simp add: slice_last_def)
next
  case (Cons x xs)
  have "fold (\<lambda>x h'. push_bounded n h' x) (x # xs) h
        = fold (\<lambda>x h'. push_bounded n h' x) xs (push_bounded n h x)" by simp
  also have "\<dots> = slice_last n (push_bounded n h x @ xs)"
    using Cons.IH [OF push_bounded_length [OF Cons.prems]] .
  also have "\<dots> = slice_last n (h @ x # xs)"
    using slice_last_append [of n "h @ [x]" xs] by (simp add: push_bounded_slice [OF Cons.prems])
  finally show ?case .
qed

subsection \<open>The invariant\<close>

lemma keys_set_source [simp]: "map fst (dataSources (set_source sid s m)) = map fst (dataSources m)"
  by (induction "dataSources m" arbitrary: m) (auto simp: set_source_def)

lemma keyset_set_source [simp]: "fst ` set (dataSources (set_source sid s m)) = fst ` set (dataSources m)"
  using keys_set_source [of sid s m] by (metis list.set_map)

lemma set_source_fields [simp]:
  "activeSource (set_source sid s m) = activeSource m"
  "dataHistory (set_source sid s m) = dataHistory m"
  "anomalyHistory (set_source sid s m) = anomalyHistory m"
  "statusCallbacks (set_source sid s m) = statusCallbacks m"
  by (simp_all add: set_source_def)

lemma consistent_set_source: "consistent m \<Longrightarrow> consistent (set_source sid s m)"
  by (simp add: consistent_def)

lemma consistent_fields: "consistent DataManager_fields"
  by (simp add: consistent_def DataManager_fields_def)

lemma consistent_add: "consistent m \<Longrightarrow> consistent (snd (snd (addDataSource sid type cfg m)))"
  by (auto simp: consistent_def addDataSource_def has_def source_initialize_def Let_def
      map_of_eq_None_iff split: option.splits)

lemma keys_Map_set:
  "map fst (Map_set k v kvs) = (if k \<in> fst ` set kvs then map fst kvs else map fst kvs @ [k])"
  by (induction kvs) (auto simp: Map_set_def)

lemma consistent_complete: "consistent m \<Longrightarrow> consistent (snd (snd (addDataSource_complete r m)))"
proof -
  assume c: "consistent m"
  let ?ds = "Map_set (reg_id r) (reg_source r) (dataSources m)"
  have d: "distinct (map fst ?ds)" and k: "fst ` set (dataSources m) \<subseteq> fst ` set ?ds"
    and i: "reg_id r \<in> fst ` set ?ds"
    using c keys_Map_set [of "reg_id r" "reg_source r" "dataSources m"]
    by (auto simp: consistent_def simp flip: set_map)
  show ?thesis
    using c d k i by (auto simp: consistent_def addDataSource_complete_def Let_def)
qed

lemma addDataSource_halves:
  "addDataSource sid type cfg m =
     (case addDataSource_begin sid type cfg m of
        Inl calls \<Rightarrow> (False, calls, m)
      | Inr r \<Rightarrow> addDataSource_complete r m)"
  by (auto simp: addDataSource_def addDataSource_begin_def addDataSource_complete_def
      Map_set_def has_def map_of_eq_None_iff Let_def split_def split: option.splits)


lemma consistent_remove: "consistent m \<Longrightarrow> consistent (snd (snd (removeDataSource sid m)))"
proof -
  assume c: "consistent m"
  let ?ds = "filter (\<lambda>(k, v). k \<noteq> sid) (dataSources m)"
  have hd: "?ds \<noteq> [] \<Longrightarrow> fst (hd ?ds) \<in> set (map fst ?ds)"
    by (cases ?ds) auto
  show ?thesis
    using c hd
    by (auto simp: consistent_def removeDataSource_def Let_def split_def distinct_map_filter
        split: option.splits if_splits)
qed

lemma consistent_stop_current: "consistent m \<Longrightarrow> consistent (snd (stop_current_active m))"
  by (auto simp: stop_current_active_def consistent_set_source split_def Let_def split: option.splits)

lemma keys_stop_current [simp]:
  "map fst (dataSources (snd (stop_current_active m))) = map fst (dataSources m)"
  by (auto simp: stop_current_active_def split_def Let_def split: option.splits)

lemma keyset_stop_current [simp]:
  "fst ` set (dataSources (snd (stop_current_active m))) = fst ` set (dataSources m)"
  using keys_stop_current [of m] by (metis list.set_map)

lemma consistent_start_new: "consistent m \<Longrightarrow> consistent (snd (start_new_active sid m))"
  by (auto simp: start_new_active_def consistent_set_source split_def Let_def split: option.splits)

lemma consistent_setActive: "consistent m \<Longrightarrow> consistent (snd (snd (setActiveDataSource sid m)))"
proof (cases "has m sid")
  case False
  assume "consistent m"
  with False show ?thesis by (simp add: setActiveDataSource_def)
next
  case True
  assume c: "consistent m"
  let ?m1 = "snd (stop_current_active m)"
  have c1: "consistent ?m1" using c by (rule consistent_stop_current)
  have "sid \<in> set (map fst (dataSources m))"
    using True by (auto simp: has_def map_of_eq_None_iff)
  then have "consistent (?m1\<lparr>activeSource := Some sid\<rparr>)"
    using c1 by (simp add: consistent_def)
  then have "consistent (snd (start_new_active sid (?m1\<lparr>activeSource := Some sid\<rparr>)))"
    by (rule consistent_start_new)
  then show ?thesis using True by (simp add: setActiveDataSource_def split_def Let_def)
qed

lemma consistent_start: "consistent m \<Longrightarrow> consistent (snd (snd (startDataSource sid m)))"
  by (auto simp: startDataSource_def consistent_set_source split_def Let_def split: option.splits)

lemma consistent_stop: "consistent m \<Longrightarrow> consistent (snd (snd (stopDataSource sid m)))"
  by (auto simp: stopDataSource_def consistent_set_source split_def Let_def split: option.splits)

lemma consistent_update: "consistent m \<Longrightarrow> consistent (snd (snd (updateDataSourceConfig sid cfg m)))"
  by (auto simp: updateDataSourceConfig_def consistent_set_source split_def Let_def split: option.splits)

lemma consistent_data: "consistent m \<Longrightarrow> consistent (snd (handleData sid d m))"
  by (auto simp: handleData_def consistent_def push_bounded_length)

lemma consistent_anomaly: "consistent m \<Longrightarrow> consistent (snd (handleAnomaly sid a m))"
  by (auto simp: handleAnomaly_def consistent_def push_bounded_length)

lemma reachable_consistent: "reachable m \<Longrightarrow> consistent m"
proof (induction rule: reachable.induct)
  case r_fields
  show ?case by (rule consistent_fields)
qed (simp_all add: consistent_add consistent_complete consistent_remove consistent_setActive consistent_start
      consistent_stop consistent_update consistent_data consistent_anomaly,
     simp_all add: consistent_def onData_def onAnomaly_def onStatus_def onError_def)

lemma builtin_registered_eq:
  "builtin_registered =
     DataManager_fields
       \<lparr>dataSources :=
          [(''simulated'',
            \<lparr>kind = Simulated, running = False,
             current_status = \<lparr>status = Stopped, message = None\<rparr>, config = []\<rparr>)],
        activeSource := Some ''simulated''\<rparr>"
  by (simp add: builtin_registered_def addDataSource_def has_def DataManager_fields_def
      createDataSource_def new_source_def source_initialize_def spread_def)

lemma reachable_builtin_registered: "reachable builtin_registered"
  unfolding builtin_registered_def by (rule r_add [OF r_fields])

subsection \<open>Event filtering\<close>



subsection \<open>The bounded histories\<close>

lemma handleData_run_active:
  "activeSource m = Some sid \<Longrightarrow>
     activeSource (handleData_run sid ds m) = Some sid \<and>
     dataHistory (handleData_run sid ds m) =
       fold (\<lambda>x h. push_bounded maxDataHistorySize h x) ds (dataHistory m)"
  by (induction ds arbitrary: m) (simp_all add: handleData_run_def handleData_def)

lemma handleAnomaly_run_active:
  "activeSource m = Some sid \<Longrightarrow>
     activeSource (handleAnomaly_run sid as m) = Some sid \<and>
     anomalyHistory (handleAnomaly_run sid as m) =
       fold (\<lambda>x h. push_bounded maxAnomalyHistorySize h x) as (anomalyHistory m)"
  by (induction as arbitrary: m) (simp_all add: handleAnomaly_run_def handleAnomaly_def)

lemma push_bounded_full: "0 < n \<Longrightarrow> length h = n \<Longrightarrow> push_bounded n h x = tl h @ [x]"
  by (cases h) (simp_all add: push_bounded_def)

lemma slice_last_Suc: "length xs = Suc n \<Longrightarrow> slice_last n xs = tl xs"
  by (cases xs) (simp_all add: slice_last_def)

text \<open>
  Claim C8.  In every state of the manager the sample history holds at most 3600 entries
  and the anomaly history at most 1000.  An accepted event that arrives when the history
  is full removes the oldest entry and nothing else; a run of accepted events leaves the
  last 3600 (or 1000) of all entries in their order, so one more than the capacity, from
  empty, leaves all but the first.
\<close>

theorem history_fifo_bounded:
  "(reachable m \<longrightarrow>
      length (getDataHistory m) \<le> 3600 \<and> length (getAnomalyHistory m) \<le> 1000) \<and>
   (activeSource m = Some sid \<and> length (dataHistory m) = 3600 \<longrightarrow>
      dataHistory (snd (handleData sid d m)) = tl (dataHistory m) @ [d]) \<and>
   (activeSource m = Some sid \<and> length (anomalyHistory m) = 1000 \<longrightarrow>
      anomalyHistory (snd (handleAnomaly sid a m)) = tl (anomalyHistory m) @ [a]) \<and>
   (activeSource m = Some sid \<and> length (dataHistory m) \<le> 3600 \<longrightarrow>
      dataHistory (handleData_run sid ds m) = slice_last 3600 (dataHistory m @ ds)) \<and>
   (activeSource m = Some sid \<and> length (anomalyHistory m) \<le> 1000 \<longrightarrow>
      anomalyHistory (handleAnomaly_run sid as m) = slice_last 1000 (anomalyHistory m @ as)) \<and>
   (activeSource m = Some sid \<and> dataHistory m = [] \<and> length ds = 3601 \<longrightarrow>
      length (dataHistory (handleData_run sid ds m)) = 3600 \<and>
      dataHistory (handleData_run sid ds m) = tl ds) \<and>
   (activeSource m = Some sid \<and> anomalyHistory m = [] \<and> length as = 1001 \<longrightarrow>
      length (anomalyHistory (handleAnomaly_run sid as m)) = 1000 \<and>
      anomalyHistory (handleAnomaly_run sid as m) = tl as)"
proof -
  have bound: "reachable m \<longrightarrow>
      length (getDataHistory m) \<le> 3600 \<and> length (getAnomalyHistory m) \<le> 1000"
    using reachable_consistent [of m]
    by (auto simp: consistent_def getDataHistory_def getAnomalyHistory_def
        maxDataHistorySize_def maxAnomalyHistorySize_def)
  have d1: "activeSource m = Some sid \<and> length (dataHistory m) = 3600 \<longrightarrow>
      dataHistory (snd (handleData sid d m)) = tl (dataHistory m) @ [d]"
    by (simp add: handleData_def maxDataHistorySize_def push_bounded_full)
  have a1: "activeSource m = Some sid \<and> length (anomalyHistory m) = 1000 \<longrightarrow>
      anomalyHistory (snd (handleAnomaly sid a m)) = tl (anomalyHistory m) @ [a]"
    by (simp add: handleAnomaly_def maxAnomalyHistorySize_def push_bounded_full)
  have dr: "activeSource m = Some sid \<and> length (dataHistory m) \<le> 3600 \<longrightarrow>
      dataHistory (handleData_run sid ds m) = slice_last 3600 (dataHistory m @ ds)"
    using handleData_run_active [of m sid ds] fold_push_bounded [of "dataHistory m" 3600 ds]
    by (simp add: maxDataHistorySize_def)
  have ar: "activeSource m = Some sid \<and> length (anomalyHistory m) \<le> 1000 \<longrightarrow>
      anomalyHistory (handleAnomaly_run sid as m) = slice_last 1000 (anomalyHistory m @ as)"
    using handleAnomaly_run_active [of m sid as] fold_push_bounded [of "anomalyHistory m" 1000 as]
    by (simp add: maxAnomalyHistorySize_def)
  have d2: "activeSource m = Some sid \<and> dataHistory m = [] \<and> length ds = 3601 \<longrightarrow>
      length (dataHistory (handleData_run sid ds m)) = 3600 \<and>
      dataHistory (handleData_run sid ds m) = tl ds"
    using dr slice_last_Suc [of ds 3600] by simp
  have a2: "activeSource m = Some sid \<and> anomalyHistory m = [] \<and> length as = 1001 \<longrightarrow>
      length (anomalyHistory (handleAnomaly_run sid as m)) = 1000 \<and>
      anomalyHistory (handleAnomaly_run sid as m) = tl as"
    using ar slice_last_Suc [of as 1000] by simp
  from bound d1 a1 dr ar d2 a2 show ?thesis by blast
qed

theorem history_fifo_bounded_witness:
  "reachable builtin_registered \<and>
   length (getDataHistory builtin_registered) \<le> 3600 \<and>
   length (getAnomalyHistory builtin_registered) \<le> 1000 \<and>
   activeSource full_manager = Some ''simulated'' \<and>
   length (dataHistory full_manager) = 3600 \<and>
   length (anomalyHistory full_manager) = 1000 \<and>
   dataHistory (snd (handleData ''simulated'' (example_point 3600) full_manager))
     = tl (dataHistory full_manager) @ [example_point 3600] \<and>
   anomalyHistory (snd (handleAnomaly ''simulated'' (example_event 1000) full_manager))
     = tl (anomalyHistory full_manager) @ [example_event 1000] \<and>
   activeSource builtin_registered = Some ''simulated'' \<and>
   dataHistory builtin_registered = [] \<and> anomalyHistory builtin_registered = [] \<and>
   length (map example_point (map real [0..<3601])) = 3601 \<and>
   length (map example_event (map real [0..<1001])) = 1001 \<and>
   dataHistory (handleData_run ''simulated'' (map example_point (map real [0..<3601])) builtin_registered)
     = tl (map example_point (map real [0..<3601])) \<and>
   anomalyHistory (handleAnomaly_run ''simulated'' (map example_event (map real [0..<1001])) builtin_registered)
     = tl (map example_event (map real [0..<1001]))"
proof -
  have f1: "activeSource full_manager = Some ''simulated''"
    by (simp add: full_manager_def builtin_registered_eq DataManager_fields_def)
  have f2: "length (dataHistory full_manager) = 3600"
    by (simp add: full_manager_def)
  have f3: "length (anomalyHistory full_manager) = 1000"
    by (simp add: full_manager_def)
  have n1: "activeSource builtin_registered = Some ''simulated''"
    by (simp add: builtin_registered_eq DataManager_fields_def)
  have n2: "dataHistory builtin_registered = []" "anomalyHistory builtin_registered = []"
    by (simp_all add: builtin_registered_eq DataManager_fields_def)
  have l1: "length (map example_point (map real [0..<3601])) = 3601" by simp
  have l2: "length (map example_event (map real [0..<1001])) = 1001" by simp
  note new = history_fifo_bounded [of builtin_registered "''simulated''" "example_point 3600"
      "example_event 1000" "map example_point (map real [0..<3601])"
      "map example_event (map real [0..<1001])"]
  note full = history_fifo_bounded [of full_manager "''simulated''" "example_point 3600"
      "example_event 1000" "[]" "[]"]
  show ?thesis
    using reachable_builtin_registered f1 f2 f3 n1 n2 l1 l2 new full by blast
qed

subsection \<open>The active source\<close>

lemma map_of_replace:
  "map_of (map (\<lambda>(k, v). if k = sid then (k, s) else (k, v)) xs) k =
     (if k = sid then map_option (\<lambda>_. s) (map_of xs k) else map_of xs k)"
  by (induction xs) auto

lemma map_of_set_source:
  "map_of (dataSources (set_source sid s m)) k =
     (if k = sid then map_option (\<lambda>_. s) (map_of (dataSources m) k) else map_of (dataSources m) k)"
  by (simp add: set_source_def map_of_replace)

lemma filter_key_distinct:
  "distinct (map fst xs) \<Longrightarrow> length (filter (\<lambda>(k, v). Some k = a) xs) \<le> 1"
proof (induction xs)
  case Nil
  then show ?case by simp
next
  case (Cons x xs)
  obtain k v where x: "x = (k, v)" by (cases x)
  show ?case
  proof (cases "Some k = a")
    case True
    with Cons.prems x have "filter (\<lambda>(k', v). Some k' = a) xs = []"
      by (force simp: filter_empty_conv)
    with True x show ?thesis by simp
  next
    case False
    with Cons x show ?thesis by simp
  qed
qed

lemma active_exclusive:
  "reachable m \<Longrightarrow> length (filter (\<lambda>(k, source, active). active) (getDataSources m)) \<le> 1"
proof -
  assume "reachable m"
  then have d: "distinct (map fst (dataSources m))"
    using reachable_consistent by (simp add: consistent_def)
  have "filter (\<lambda>(k, source, active). active) (getDataSources m)
        = map (\<lambda>(k, source). (k, source, Some k = activeSource m))
            (filter (\<lambda>(k, v). Some k = activeSource m) (dataSources m))"
    by (simp add: getDataSources_def filter_map o_def split_def)
  then show ?thesis using filter_key_distinct [OF d, of "activeSource m"] by simp
qed

lemma stop_current_other:
  "activeSource m \<noteq> Some k \<Longrightarrow>
     map_of (dataSources (snd (stop_current_active m))) k = map_of (dataSources m) k"
  by (auto simp: stop_current_active_def map_of_set_source split_def Let_def split: option.splits)

lemma stop_current_stops:
  "activeSource m = Some a \<Longrightarrow> a \<noteq> [] \<Longrightarrow> map_of (dataSources m) a = Some s \<Longrightarrow>
     \<exists>s'. map_of (dataSources (snd (stop_current_active m))) a = Some s' \<and> \<not> running s'"
  by (auto simp: stop_current_active_def map_of_set_source source_stop_def Let_def)

lemma start_new_starts:
  "map_of (dataSources m) sid = Some s \<Longrightarrow>
     \<exists>s'. map_of (dataSources (snd (start_new_active sid m))) sid = Some s' \<and> running s'"
  by (auto simp: start_new_active_def map_of_set_source source_start_def Let_def)

lemma start_new_other:
  "k \<noteq> sid \<Longrightarrow>
     map_of (dataSources (snd (start_new_active sid m))) k = map_of (dataSources m) k"
  by (auto simp: start_new_active_def map_of_set_source split_def Let_def split: option.splits)

lemma start_new_active_field [simp]:
  "activeSource (snd (start_new_active sid m)) = activeSource m"
  by (auto simp: start_new_active_def split_def Let_def split: option.splits)

lemma stop_current_has:
  "(map_of (dataSources (snd (stop_current_active m))) k = None) = (map_of (dataSources m) k = None)"
  by (simp add: map_of_eq_None_iff)

text \<open>
  What \<open>setActiveDataSource\<close> establishes for a registered id: it succeeds, the id is
  the active source and its producer runs; the producer that was active before, if it is
  another one and its id is not the empty string, does not run.
\<close>

lemma setActiveDataSource_post:
  assumes "has m sid"
  shows "fst (setActiveDataSource sid m) = True"
    and "activeSource (snd (snd (setActiveDataSource sid m))) = Some sid"
    and "\<exists>s. map_of (dataSources (snd (snd (setActiveDataSource sid m)))) sid = Some s \<and> running s"
    and "activeSource m = Some a \<Longrightarrow> a \<noteq> [] \<Longrightarrow> a \<noteq> sid \<Longrightarrow> map_of (dataSources m) a = Some s0 \<Longrightarrow>
           \<exists>s. map_of (dataSources (snd (snd (setActiveDataSource sid m)))) a = Some s \<and> \<not> running s"
proof -
  let ?m1 = "snd (stop_current_active m)"
  let ?m2 = "?m1\<lparr>activeSource := Some sid\<rparr>"
  have eq: "snd (snd (setActiveDataSource sid m)) = snd (start_new_active sid ?m2)"
    using assms by (simp add: setActiveDataSource_def split_def Let_def)
  show "fst (setActiveDataSource sid m) = True"
    using assms by (simp add: setActiveDataSource_def split_def Let_def)
  show "activeSource (snd (snd (setActiveDataSource sid m))) = Some sid"
    by (simp add: eq)
  from assms obtain s1 where "map_of (dataSources ?m2) sid = Some s1"
    using stop_current_has [of m sid] by (auto simp: has_def)
  from start_new_starts [OF this]
  show "\<exists>s. map_of (dataSources (snd (snd (setActiveDataSource sid m)))) sid = Some s \<and> running s"
    by (simp add: eq)
  show "\<exists>s. map_of (dataSources (snd (snd (setActiveDataSource sid m)))) a = Some s \<and> \<not> running s"
    if "activeSource m = Some a" "a \<noteq> []" "a \<noteq> sid" "map_of (dataSources m) a = Some s0"
    using stop_current_stops [OF that(1,2,4)] start_new_other [OF that(3), of ?m2]
    by (simp add: eq)
qed

lemma with_empty_id_eq:
  "with_empty_id =
     DataManager_fields
       \<lparr>dataSources :=
          [(''simulated'', \<lparr>kind = Simulated, running = False,
              current_status = \<lparr>status = Stopped, message = None\<rparr>, config = []\<rparr>),
           ([], \<lparr>kind = Pcap, running = True,
              current_status = \<lparr>status = Running, message = Some ''Pcap capture running''\<rparr>,
              config = []\<rparr>),
           (''b'', \<lparr>kind = Pcap, running = False,
              current_status = \<lparr>status = Stopped,
                message = Some ''Pcap capture initialized and ready''\<rparr>, config = []\<rparr>)],
        activeSource := Some []\<rparr>"
  by (simp add: with_empty_id_def builtin_registered_eq DataManager_fields_def addDataSource_def
      has_def createDataSource_def new_source_def source_initialize_def spread_def
      setActiveDataSource_def stop_current_active_def start_new_active_def source_start_def
      set_source_def handleStatusChange_def dispatch_status_def Let_def)

lemma reachable_with_empty_id: "reachable with_empty_id"
  unfolding with_empty_id_def
  by (rule r_add [OF r_setActive [OF r_add [OF reachable_builtin_registered]]])

text \<open>
  The hypothesis on the ids in the claim below is needed.  The class takes any string as
  an id, and \<open>if (this.activeSource)\<close> is false for the empty string: were a producer
  registered under it, active and running, a switch would leave it running.  The route
  refuses a request without an id and the form generates one when the field is empty, so
  no producer is registered under the empty string.
\<close>

lemma setActive_skips_empty_id:
  "reachable with_empty_id \<and>
   flags with_empty_id = [(''simulated'', False, False), ([], True, True), (''b'', False, False)] \<and>
   fst (setActiveDataSource ''b'' with_empty_id) = True \<and>
   activeSource (snd (snd (setActiveDataSource ''b'' with_empty_id))) = Some ''b'' \<and>
   flags (snd (snd (setActiveDataSource ''b'' with_empty_id)))
     = [(''simulated'', False, False), ([], True, False), (''b'', True, True)]"
  using reachable_with_empty_id
  by (simp add: with_empty_id_eq DataManager_fields_def flags_def getDataSources_def
      setActiveDataSource_def has_def stop_current_active_def start_new_active_def
      source_start_def set_source_def handleStatusChange_def dispatch_status_def Let_def)

text \<open>
  Claim C7.  In every state of the manager at most one entry of \<open>getDataSources\<close> is
  active.  In a state where no producer is registered under the empty string,
  \<open>setActiveDataSource\<close> of a registered id succeeds; afterwards that id is the active
  source, again at most one entry is active, and its producer runs.  The producer that was
  active before has been stopped by the first block of the method: it does not run when
  the new active producer is started, and if it is another producer than the new one, it
  does not run afterwards.
\<close>

theorem active_source_exclusive_and_switch:
  "(reachable m \<longrightarrow>
      length (filter (\<lambda>(k, source, active). active) (getDataSources m)) \<le> 1) \<and>
   (reachable m \<and> has m sid \<and> [] \<notin> fst ` set (dataSources m) \<longrightarrow>
      fst (setActiveDataSource sid m) = True \<and>
      activeSource (snd (snd (setActiveDataSource sid m))) = Some sid \<and>
      length (filter (\<lambda>(k, source, active). active)
        (getDataSources (snd (snd (setActiveDataSource sid m))))) \<le> 1 \<and>
      (\<exists>s. map_of (dataSources (snd (snd (setActiveDataSource sid m)))) sid = Some s \<and> running s) \<and>
      (\<forall>a. activeSource m = Some a \<longrightarrow>
         (\<exists>s. map_of (dataSources (snd (stop_current_active m))) a = Some s \<and> \<not> running s) \<and>
         (a \<noteq> sid \<longrightarrow>
            (\<exists>s. map_of (dataSources (snd (snd (setActiveDataSource sid m)))) a = Some s \<and>
                 \<not> running s))))"
proof (rule conjI; rule impI)
  assume "reachable m"
  then show "length (filter (\<lambda>(k, source, active). active) (getDataSources m)) \<le> 1"
    by (rule active_exclusive)
next
  assume h: "reachable m \<and> has m sid \<and> [] \<notin> fst ` set (dataSources m)"
  then have r: "reachable m" and hs: "has m sid" and ne: "[] \<notin> fst ` set (dataSources m)"
    by simp_all
  let ?m' = "snd (snd (setActiveDataSource sid m))"
  have c: "consistent m" using r by (rule reachable_consistent)
  have prev: "(\<exists>s. map_of (dataSources (snd (stop_current_active m))) a = Some s \<and> \<not> running s) \<and>
         (a \<noteq> sid \<longrightarrow> (\<exists>s. map_of (dataSources ?m') a = Some s \<and> \<not> running s))"
    if a: "activeSource m = Some a" for a
  proof -
    from c a have mem: "a \<in> fst ` set (dataSources m)" by (auto simp: consistent_def)
    with ne have a0: "a \<noteq> []" by blast
    from mem obtain s0 where s0: "map_of (dataSources m) a = Some s0"
      by (metis map_of_eq_None_iff not_Some_eq)
    from stop_current_stops [OF a a0 s0] setActiveDataSource_post(4) [OF hs a a0 _ s0]
    show ?thesis by blast
  qed
  show "fst (setActiveDataSource sid m) = True \<and>
      activeSource ?m' = Some sid \<and>
      length (filter (\<lambda>(k, source, active). active) (getDataSources ?m')) \<le> 1 \<and>
      (\<exists>s. map_of (dataSources ?m') sid = Some s \<and> running s) \<and>
      (\<forall>a. activeSource m = Some a \<longrightarrow>
         (\<exists>s. map_of (dataSources (snd (stop_current_active m))) a = Some s \<and> \<not> running s) \<and>
         (a \<noteq> sid \<longrightarrow> (\<exists>s. map_of (dataSources ?m') a = Some s \<and> \<not> running s)))"
    using setActiveDataSource_post(1,2,3) [OF hs] active_exclusive [OF r_setActive [OF r, of sid]] prev
    by blast
qed

lemma two_sources_eq:
  "two_sources =
     DataManager_fields
       \<lparr>dataSources :=
          [(''simulated'', \<lparr>kind = Simulated, running = True,
              current_status = \<lparr>status = Running, message = None\<rparr>, config = []\<rparr>),
           (''b'', \<lparr>kind = Pcap, running = False,
              current_status = \<lparr>status = Stopped,
                message = Some ''Pcap capture initialized and ready''\<rparr>, config = []\<rparr>)],
        activeSource := Some ''simulated''\<rparr>"
  by (simp add: two_sources_def builtin_registered_eq DataManager_fields_def addDataSource_def
      has_def createDataSource_def new_source_def source_initialize_def spread_def
      setActiveDataSource_def stop_current_active_def start_new_active_def source_start_def
      set_source_def handleStatusChange_def dispatch_status_def Let_def)

theorem active_source_exclusive_and_switch_witness:
  "reachable two_sources \<and> has two_sources ''b'' \<and> [] \<notin> fst ` set (dataSources two_sources) \<and>
   flags two_sources = [(''simulated'', True, True), (''b'', False, False)] \<and>
   activeSource two_sources = Some ''simulated'' \<and>
   fst (setActiveDataSource ''b'' two_sources) = True \<and>
   activeSource (snd (snd (setActiveDataSource ''b'' two_sources))) = Some ''b'' \<and>
   (\<exists>s. map_of (dataSources (snd (snd (setActiveDataSource ''b'' two_sources)))) ''simulated'' = Some s
        \<and> \<not> running s) \<and>
   (\<exists>s. map_of (dataSources (snd (snd (setActiveDataSource ''b'' two_sources)))) ''b'' = Some s
        \<and> running s) \<and>
   length (filter (\<lambda>(k, source, active). active) (getDataSources two_sources)) \<le> 1"
proof -
  have r: "reachable two_sources"
    unfolding two_sources_def
    by (rule r_setActive [OF r_add [OF reachable_builtin_registered]])
  have h: "has two_sources ''b''" "[] \<notin> fst ` set (dataSources two_sources)"
    "activeSource two_sources = Some ''simulated''"
    "flags two_sources = [(''simulated'', True, True), (''b'', False, False)]"
    by (simp_all add: two_sources_eq DataManager_fields_def has_def flags_def getDataSources_def)
  note T = active_source_exclusive_and_switch [of two_sources "''b''"]
  from T r h(1,2) have
    "fst (setActiveDataSource ''b'' two_sources) = True"
    "activeSource (snd (snd (setActiveDataSource ''b'' two_sources))) = Some ''b''"
    "\<exists>s. map_of (dataSources (snd (snd (setActiveDataSource ''b'' two_sources)))) ''b'' = Some s
        \<and> running s"
    "\<exists>s. map_of (dataSources (snd (snd (setActiveDataSource ''b'' two_sources)))) ''simulated'' = Some s
        \<and> \<not> running s"
    "length (filter (\<lambda>(k, source, active). active) (getDataSources two_sources)) \<le> 1"
    using h(3) by auto
  with r h show ?thesis by blast
qed

subsection \<open>Registration\<close>





subsection \<open>The constructor\<close>

lemma begin_builtin:
  "addDataSource_begin ''simulated'' ''simulated'' None DataManager_fields = Inr builtin_registration"
  by (simp add: addDataSource_begin_def has_def DataManager_fields_def createDataSource_def
      new_source_def source_initialize_def spread_def builtin_registration_def)

text \<open>
  Claim C10, as stated, fails: the constructor does not wait for the registration it
  starts.  The manager it returns has an empty registry and no active source, and a
  caller's \<open>addDataSource("simulated", "simulated")\<close> on it passes the duplicate check; its
  second half, run after the built-in registration has completed, answers \<open>true\<close> and
  puts its own producer in the place of the built-in one.
\<close>

theorem constructor_returns_empty_registry_counterexample:
  "fst DataManager_new = DataManager_fields \<and>
   getDataSources (fst DataManager_new) = [] \<and>
   activeSource (fst DataManager_new) = None \<and>
   snd DataManager_new = Inr builtin_registration \<and>
   addDataSource_begin ''simulated'' ''simulated'' None (fst DataManager_new)
     = Inr builtin_registration \<and>
   addDataSource_complete builtin_registration builtin_registered = (True, [], builtin_registered)"
  by (simp add: DataManager_new_def begin_builtin)
     (simp add: DataManager_fields_def getDataSources_def builtin_registered_eq
        addDataSource_complete_def Map_set_def builtin_registration_def)

text \<open>
  Claim C10, amended.  The constructor returns the initial fields, an empty registry and
  no active source, and leaves in flight the registration of a producer of the simulated
  class under the id \<open>simulated\<close>.  When that registration completes on the empty
  registry, the built-in producer is the only entry and is the active source.  From that
  state on, whatever a caller adds by a call that runs to its end, the active source stays
  \<open>simulated\<close>, and a successful add makes the new producer the second entry.
\<close>

theorem constructor_registers_simulated:
  "DataManager_new = (DataManager_fields, Inr builtin_registration) \<and>
   dataSources DataManager_fields = [] \<and> activeSource DataManager_fields = None \<and>
   reg_id builtin_registration = ''simulated'' \<and>
   kind (reg_source builtin_registration) = Simulated \<and>
   addDataSource_complete builtin_registration DataManager_fields = (True, [], builtin_registered) \<and>
   flags builtin_registered = [(''simulated'', False, True)] \<and>
   activeSource builtin_registered = Some ''simulated'' \<and>
   (\<forall>sid type cfg.
      length (dataSources (snd (snd (addDataSource sid type cfg builtin_registered))))
        = (if fst (addDataSource sid type cfg builtin_registered) then 2 else 1) \<and>
      activeSource (snd (snd (addDataSource sid type cfg builtin_registered))) = Some ''simulated'')"
proof -
  have "length (dataSources (snd (snd (addDataSource sid type cfg builtin_registered))))
          = (if fst (addDataSource sid type cfg builtin_registered) then 2 else 1) \<and>
        activeSource (snd (snd (addDataSource sid type cfg builtin_registered))) = Some ''simulated''"
    for sid type cfg
    by (cases "createDataSource type"; cases "snd (source_initialize cfg (the (createDataSource type)))")
       (simp_all add: builtin_registered_eq DataManager_fields_def addDataSource_def
          split_def Let_def)
  moreover have "DataManager_new = (DataManager_fields, Inr builtin_registration)"
    by (simp add: DataManager_new_def begin_builtin)
  moreover have "addDataSource_complete builtin_registration DataManager_fields
      = (True, [], builtin_registered)"
    by (simp add: builtin_registered_eq DataManager_fields_def addDataSource_complete_def
        Map_set_def builtin_registration_def)
  moreover have "flags builtin_registered = [(''simulated'', False, True)]"
    "activeSource builtin_registered = Some ''simulated''"
    "dataSources DataManager_fields = []" "activeSource DataManager_fields = None"
    "reg_id builtin_registration = ''simulated''"
    "kind (reg_source builtin_registration) = Simulated"
    by (simp_all add: builtin_registered_eq DataManager_fields_def flags_def getDataSources_def
        builtin_registration_def)
  ultimately show ?thesis by simp
qed

end
